theory Spec2Isabelle
  imports
    Main
    "HOL-Library.AList"
    "HOL-Library.Char_ord"
    "HOL-Library.List_Lexorder"
    "HOL-Library.Option_ord"
    "HOL-Library.Product_Lexorder"
begin

section \<open>Python strings and \<open>int()\<close>\<close>

text \<open>
  Pin strings are modelled as \<open>string\<close> (lists of 8-bit characters) and are taken to be
  ASCII.  Python integers are unbounded, hence \<open>int\<close>.  The interpreter's optional limit
  on the number of digits accepted by \<open>int()\<close> is not part of the model.
\<close>

text \<open>\<open>s.startswith(p)\<close>\<close>

fun startswith :: "string \<Rightarrow> string \<Rightarrow> bool" where
  "startswith s [] = True"
| "startswith [] (p # ps) = False"
| "startswith (c # cs) (p # ps) = (c = p \<and> startswith cs ps)"

text \<open>\<open>sub in s\<close>\<close>

fun contains :: "string \<Rightarrow> string \<Rightarrow> bool" where
  "contains [] sub = (sub = [])"
| "contains (c # cs) sub = (startswith (c # cs) sub \<or> contains cs sub)"

text \<open>
  \<open>s.replace(old, "")\<close>: every non-overlapping occurrence of \<open>old\<close>, found from left
  to right, is removed.  An empty \<open>old\<close> leaves \<open>s\<close> as it is.
\<close>

fun remove_all :: "string \<Rightarrow> string \<Rightarrow> string" where
  "remove_all old [] = []"
| "remove_all old (c # cs) =
     (if startswith (c # cs) old then remove_all old (drop (length old - 1) cs)
      else c # remove_all old cs)"

definition replace_empty :: "string \<Rightarrow> string \<Rightarrow> string" where
  "replace_empty s old = (if old = [] then s else remove_all old s)"

text \<open>\<open>sep.join(xs)\<close>\<close>

fun join :: "string \<Rightarrow> string list \<Rightarrow> string" where
  "join sep [] = []"
| "join sep [x] = x"
| "join sep (x # y # xs) = x @ sep @ join sep (y # xs)"

text \<open>
  \<open>int(s)\<close> in base ten on an ASCII string: white space (tab, line feed, vertical tab,
  form feed, carriage return, space) is skipped at both ends, one sign may follow, then
  decimal digits, where single underscores may stand between two digits.  Anything else
  is a \<open>ValueError\<close>, here \<open>None\<close>.
\<close>

definition is_space :: "char \<Rightarrow> bool" where
  "is_space c = (c \<in> set [CHR 0x09, CHR 0x0A, CHR 0x0B, CHR 0x0C, CHR 0x0D, CHR '' ''])"

definition is_digit :: "char \<Rightarrow> bool" where
  "is_digit c = (c \<in> set ''0123456789'')"

definition digit_val :: "char \<Rightarrow> int" where
  "digit_val c = int (of_char c) - 48"

definition strip :: "string \<Rightarrow> string" where
  "strip s = rev (dropWhile is_space (rev (dropWhile is_space s)))"

fun parse_digits :: "string \<Rightarrow> int \<Rightarrow> int option" where
  "parse_digits [] acc = Some acc"
| "parse_digits (c # cs) acc =
     (if is_digit c then parse_digits cs (acc * 10 + digit_val c)
      else if c = CHR ''_'' then
        (case cs of
           [] \<Rightarrow> None
         | d # ds \<Rightarrow> if is_digit d then parse_digits cs acc else None)
      else None)"

definition parse_unsigned :: "string \<Rightarrow> int option" where
  "parse_unsigned s =
     (case s of
        [] \<Rightarrow> None
      | c # cs \<Rightarrow> if is_digit c then parse_digits s 0 else None)"

definition py_int :: "string \<Rightarrow> int option" where
  "py_int s =
     (case strip s of
        [] \<Rightarrow> None
      | c # cs \<Rightarrow>
          if c = CHR ''-'' then map_option uminus (parse_unsigned cs)
          else if c = CHR ''+'' then parse_unsigned cs
          else parse_unsigned (c # cs))"

section \<open>The constraint combiner\<close>

datatype py_error =
    InvalidLiteral string
  | Contradictory string string
  | IndexError

text \<open>
  \<open>InvalidLiteral s\<close> is the \<open>ValueError\<close> of \<open>int(s)\<close>; \<open>Contradictory p q\<close> is the
  \<open>ValueError\<close> "Contradictory version pinnings found: p and q".
\<close>

fun parse_pinning_loop :: "string list \<Rightarrow> string \<Rightarrow> py_error + (string \<times> int)" where
  "parse_pinning_loop [] pinning = Inr ('''', 0)"
| "parse_pinning_loop (operator # ops) pinning =
     (if contains pinning operator then
        (case py_int (replace_empty pinning operator) of
           None \<Rightarrow> Inl (InvalidLiteral (replace_empty pinning operator))
         | Some v \<Rightarrow> Inr (operator, v))
      else parse_pinning_loop ops pinning)"

definition parse_pinning :: "string \<Rightarrow> py_error + (string \<times> int)" where
  "parse_pinning pinning = parse_pinning_loop [''<='', ''>='', ''<'', ''>''] pinning"

fun is_redundant_loop :: "string \<Rightarrow> string \<Rightarrow> int \<Rightarrow> string list \<Rightarrow> py_error + bool" where
  "is_redundant_loop pinning op version [] = Inr False"
| "is_redundant_loop pinning op version (other # rest) =
     (if other = pinning then is_redundant_loop pinning op version rest
      else
        (case parse_pinning other of
           Inl e \<Rightarrow> Inl e
         | Inr (other_op, other_version) \<Rightarrow>
             if op \<in> set [''<'', ''<=''] \<and> other_op \<in> set [''<'', ''<='']
                \<and> version \<ge> other_version then Inr True
             else if op \<in> set [''>'', ''>=''] \<and> other_op \<in> set [''>'', ''>='']
                \<and> version \<le> other_version then Inr True
             else is_redundant_loop pinning op version rest))"

definition is_redundant :: "string \<Rightarrow> string list \<Rightarrow> py_error + bool" where
  "is_redundant pinning other_pinnings =
     (case parse_pinning pinning of
        Inl e \<Rightarrow> Inl e
      | Inr (op, version) \<Rightarrow> is_redundant_loop pinning op version other_pinnings)"

definition is_valid_pinning :: "string \<Rightarrow> bool" where
  "is_valid_pinning pinning =
     (if contains pinning ''='' \<and> startswith pinning ''='' then
        (case py_int (tl pinning) of None \<Rightarrow> False | Some v \<Rightarrow> True)
      else if list_ex (\<lambda>op. contains pinning op) [''<='', ''>='', ''<'', ''>''] then
        (case parse_pinning pinning of Inl e \<Rightarrow> False | Inr r \<Rightarrow> True)
      else False)"

text \<open>The loop that looks for a pin contradicting the first exact pin.\<close>

fun exact_check :: "string \<Rightarrow> int \<Rightarrow> string list \<Rightarrow> py_error + unit" where
  "exact_check exact exact_version [] = Inr ()"
| "exact_check exact exact_version (other_pin # rest) =
     (if other_pin \<noteq> exact then
        (case parse_pinning other_pin of
           Inl e \<Rightarrow> Inl e
         | Inr (op, ver) \<Rightarrow>
             if (op \<in> set [''<'', ''<=''] \<and> exact_version \<ge> ver)
                \<or> (op \<in> set [''>'', ''>=''] \<and> exact_version \<le> ver)
             then Inl (Contradictory exact other_pin)
             else exact_check exact exact_version rest)
      else exact_check exact exact_version rest)"

text \<open>The list comprehension that keeps the pins which are not redundant.\<close>

fun non_redundant :: "string list \<Rightarrow> string list \<Rightarrow> py_error + string list" where
  "non_redundant [] valid_pinnings = Inr []"
| "non_redundant (p # ps) valid_pinnings =
     (case is_redundant p valid_pinnings of
        Inl e \<Rightarrow> Inl e
      | Inr r \<Rightarrow>
          (case non_redundant ps valid_pinnings of
             Inl e \<Rightarrow> Inl e
           | Inr keep \<Rightarrow> Inr (if r then keep else p # keep)))"

text \<open>The inner and the outer loop of the general contradiction check.\<close>

fun contra_inner :: "string \<Rightarrow> string list \<Rightarrow> py_error + unit" where
  "contra_inner pin [] = Inr ()"
| "contra_inner pin (other_pin # rest) =
     (case parse_pinning pin of
        Inl e \<Rightarrow> Inl e
      | Inr (op1, ver1) \<Rightarrow>
          (case parse_pinning other_pin of
             Inl e \<Rightarrow> Inl e
           | Inr (op2, ver2) \<Rightarrow>
               if (op1 \<in> set [''<'', ''<=''] \<and> op2 \<in> set [''>'', ''>=''] \<and> ver1 < ver2)
                  \<or> (op2 \<in> set [''<'', ''<=''] \<and> op1 \<in> set [''>'', ''>=''] \<and> ver2 < ver1)
               then Inl (Contradictory pin other_pin)
               else contra_inner pin rest))"

fun contra_outer :: "string list \<Rightarrow> py_error + unit" where
  "contra_outer [] = Inr ()"
| "contra_outer (pin # rest) =
     (case contra_inner pin rest of
        Inl e \<Rightarrow> Inl e
      | Inr u \<Rightarrow> contra_outer rest)"

text \<open>
  \<open>min(xs, key=lambda p: _parse_pinning(p)[1])\<close> on a list that is not empty: the
  running minimum is replaced only by a strictly smaller key, so the first of several
  minimal elements is returned.
\<close>

fun min_loop :: "string \<Rightarrow> int \<Rightarrow> string list \<Rightarrow> py_error + string" where
  "min_loop best k [] = Inr best"
| "min_loop best k (p # ps) =
     (case parse_pinning p of
        Inl e \<Rightarrow> Inl e
      | Inr (op, v) \<Rightarrow> if v < k then min_loop p v ps else min_loop best k ps)"

definition min_by_version :: "string list \<Rightarrow> py_error + string" where
  "min_by_version xs =
     (case xs of
        [] \<Rightarrow> Inl (InvalidLiteral [])
      | p # ps \<Rightarrow>
          (case parse_pinning p of
             Inl e \<Rightarrow> Inl e
           | Inr (op, v) \<Rightarrow> min_loop p v ps))"

definition combine_version_pinnings :: "string list \<Rightarrow> py_error + string" where
  "combine_version_pinnings pinnings =
     (let valid_pinnings = filter is_valid_pinning pinnings in
      if valid_pinnings = [] then Inr ''''
      else
        let exact_pinnings = filter (\<lambda>p. startswith p ''='') valid_pinnings in
        if exact_pinnings \<noteq> [] then
          (case py_int (tl (hd exact_pinnings)) of
             None \<Rightarrow> Inl (InvalidLiteral (tl (hd exact_pinnings)))
           | Some exact_version \<Rightarrow>
               (case exact_check (hd exact_pinnings) exact_version valid_pinnings of
                  Inl e \<Rightarrow> Inl e
                | Inr u \<Rightarrow> Inr (hd exact_pinnings)))
        else
          (case non_redundant valid_pinnings valid_pinnings of
             Inl e \<Rightarrow> Inl e
           | Inr non_redundant_pinnings \<Rightarrow>
               (case contra_outer non_redundant_pinnings of
                  Inl e \<Rightarrow> Inl e
                | Inr u \<Rightarrow>
                    if non_redundant_pinnings = [] then
                      (let inclusive_pinnings =
                             filter (\<lambda>p. startswith p ''<='' \<or> startswith p ''>='') valid_pinnings
                       in if inclusive_pinnings \<noteq> [] then min_by_version inclusive_pinnings
                          else min_by_version valid_pinnings)
                    else Inr (join '','' non_redundant_pinnings))))"

subsection \<open>Reading a valid pin\<close>

text \<open>
  Operator and threshold of a pin, as \<open>_parse_pinning\<close> reads them; the defaults are
  taken only where \<open>_parse_pinning\<close> raises, which it never does on a valid pin.
\<close>

definition pin_op :: "string \<Rightarrow> string" where
  "pin_op p = (case parse_pinning p of Inl e \<Rightarrow> '''' | Inr (op, v) \<Rightarrow> op)"

definition pin_ver :: "string \<Rightarrow> int" where
  "pin_ver p = (case parse_pinning p of Inl e \<Rightarrow> 0 | Inr (op, v) \<Rightarrow> v)"

definition is_upper :: "string \<Rightarrow> bool" where
  "is_upper p = (pin_op p \<in> set [''<'', ''<=''])"

definition is_lower :: "string \<Rightarrow> bool" where
  "is_lower p = (pin_op p \<in> set [''>'', ''>=''])"

definition is_exact :: "string \<Rightarrow> bool" where
  "is_exact p = startswith p ''=''"

definition is_inclusive :: "string \<Rightarrow> bool" where
  "is_inclusive p = (startswith p ''<='' \<or> startswith p ''>='')"

text \<open>The value \<open>N\<close> of an exact pin \<open>=N\<close>.\<close>

definition exact_value :: "string \<Rightarrow> int" where
  "exact_value p = (case py_int (tl p) of None \<Rightarrow> 0 | Some v \<Rightarrow> v)"

text \<open>
  The bound a comparison pin states, as a predicate on versions: \<open><5\<close> is satisfied
  by every \<open>n < 5\<close>, \<open>>=2\<close> by every \<open>n \<ge> 2\<close>.  A pin without an operator states
  no bound.
\<close>

definition satisfies :: "int \<Rightarrow> string \<Rightarrow> bool" where
  "satisfies n p =
     (if pin_op p = ''<'' then n < pin_ver p
      else if pin_op p = ''<='' then n \<le> pin_ver p
      else if pin_op p = ''>'' then n > pin_ver p
      else if pin_op p = ''>='' then n \<ge> pin_ver p
      else True)"

text \<open>
  What the exact-pin loop tests instead: the operator's direction only, with the
  threshold itself always counted as a violation.
\<close>

definition clashes_with_exact :: "int \<Rightarrow> string \<Rightarrow> bool" where
  "clashes_with_exact n p = ((is_upper p \<and> n \<ge> pin_ver p) \<or> (is_lower p \<and> n \<le> pin_ver p))"

text \<open>
  Redundancy in the words of the specification: \<open>p\<close> is made redundant by another pin
  \<open>q\<close> of the same direction whose threshold is at least as tight.
\<close>

definition redundant_by :: "string \<Rightarrow> string \<Rightarrow> bool" where
  "redundant_by p q =
     (q \<noteq> p \<and> ((is_upper p \<and> is_upper q \<and> pin_ver q \<le> pin_ver p)
              \<or> (is_lower p \<and> is_lower q \<and> pin_ver p \<le> pin_ver q)))"

definition surviving :: "string list \<Rightarrow> string list" where
  "surviving valid = filter (\<lambda>p. \<not> list_ex (redundant_by p) valid) valid"

definition pair_contradiction :: "string \<Rightarrow> string \<Rightarrow> bool" where
  "pair_contradiction u l = (is_upper u \<and> is_lower l \<and> pin_ver u < pin_ver l)"

definition cross_contradiction :: "string list \<Rightarrow> bool" where
  "cross_contradiction ps = list_ex (\<lambda>u. list_ex (pair_contradiction u) ps) ps"

definition is_contradiction_error :: "py_error + 'a \<Rightarrow> bool" where
  "is_contradiction_error r =
     (case r of Inl (Contradictory p q) \<Rightarrow> True | Inl e \<Rightarrow> False | Inr v \<Rightarrow> False)"

text \<open>The characters an argument accepted by \<open>int()\<close> is made of.\<close>

definition int_char :: "char \<Rightarrow> bool" where
  "int_char c = (is_space c \<or> is_digit c \<or> c = CHR ''_'' \<or> c = CHR ''+'' \<or> c = CHR ''-'')"

section \<open>Declarations and warnings\<close>

type_synonym Platform = string

datatype CondaPip = Conda | Pip

text \<open>
  Modelled from the spec: the class \<open>Meta\<close> of \<open>unidep.platform_definitions\<close> is not
  among the sources.  The specification gives a Declaration a package name, a nullable
  version pin, the tag of its ecosystem, a nullable ordered set of platforms (null: all
  platforms) and a rendering, and makes it immutable with equality by value over all
  attributes.  The source reads \<open>meta.pin\<close>, \<open>meta.which\<close>, \<open>meta.platforms()\<close> and
  \<open>meta.pprint()\<close>; a Declaration is never falsy.
\<close>

record Meta =
  name :: string
  pin :: "string option"
  which :: CondaPip
  platforms :: "Platform list option"
  pprint :: string

text \<open>
  A call of \<open>warn\<close>, kept as the values its message is formatted from:
  the platform, the retained Declaration, its ecosystem and the discarded Declarations;
  or the two pins that differ.
\<close>

datatype warning =
    PlatformConflict "Platform option" Meta CondaPip "Meta list"
  | PinningConflict "string option" "string option"

fun discarded_of :: "warning \<Rightarrow> Meta list" where
  "discarded_of (PlatformConflict platform selected wh discarded) = discarded"
| "discarded_of (PinningConflict conda_pin pip_pin) = []"

text \<open>
  Dictionaries keep the order in which their keys were first inserted, and the order of
  the warnings depends on it: a dictionary is an association list with distinct keys,
  \<open>d[k] = v\<close> is \<^const>\<open>AList.update\<close> and \<open>d.get(k)\<close> is \<^const>\<open>map_of\<close>.
\<close>

type_synonym sources = "(CondaPip \<times> Meta list) list"
type_synonym grouped = "(Platform option \<times> sources) list"
type_synonym selected = "(CondaPip \<times> Meta) list"
type_synonym reduced = "(Platform option \<times> selected) list"

section \<open>The grouper\<close>

text \<open>Reading a \<open>defaultdict\<close> at a key: the default where the key is missing.\<close>

definition get_default :: "('k \<times> 'v) list \<Rightarrow> 'k \<Rightarrow> 'v \<Rightarrow> 'v" where
  "get_default d k dflt = (case map_of d k of None \<Rightarrow> dflt | Some v \<Rightarrow> v)"

text \<open>\<open>grouped_metas[_platform][meta.which].append(meta)\<close>\<close>

definition group_append :: "Platform option \<Rightarrow> Meta \<Rightarrow> grouped \<Rightarrow> grouped" where
  "group_append platform meta grouped_metas =
     (let inner = get_default grouped_metas platform [];
          bucket = get_default inner (which meta) []
      in AList.update platform (AList.update (which meta) (bucket @ [meta]) inner) grouped_metas)"

definition platforms_or_null :: "Meta \<Rightarrow> Platform option list" where
  "platforms_or_null meta = (case platforms meta of None \<Rightarrow> [None] | Some ps \<Rightarrow> map Some ps)"

definition group_metas :: "Meta list \<Rightarrow> grouped" where
  "group_metas meta_list =
     fold (\<lambda>meta g. fold (\<lambda>platform. group_append platform meta) (platforms_or_null meta) g)
       meta_list []"

definition prepare_metas_for_conflict_resolution ::
    "(string \<times> Meta list) list \<Rightarrow> (string \<times> grouped) list" where
  "prepare_metas_for_conflict_resolution requirements =
     fold (\<lambda>(package, meta_list) prepared_data.
             AList.update package (group_metas meta_list) prepared_data)
       requirements []"

text \<open>The list held at \<open>(platform, ecosystem)\<close>; empty where there is none.\<close>

definition bucket_of :: "grouped \<Rightarrow> Platform option \<Rightarrow> CondaPip \<Rightarrow> Meta list" where
  "bucket_of g platform wh = get_default (get_default g platform []) wh []"

section \<open>The platform selector\<close>

definition sort_key_of :: "Meta \<Rightarrow> bool \<times> string option" where
  "sort_key_of m = (pin m \<noteq> None, pin m)"

text \<open>
  \<open>xs.sort(key=f, reverse=True)\<close>: a stable sort in descending order, which is the
  stable ascending sort of the reversed list, reversed.  The keys are pairs of a truth
  value and a pin; two pins are compared only where both are strings or both are null,
  so the comparison never raises.  The source sorts the bucket in place and does not
  read it again after the selection.
\<close>

definition sort_reverse :: "('a \<Rightarrow> 'k::linorder) \<Rightarrow> 'a list \<Rightarrow> 'a list" where
  "sort_reverse f xs = rev (sort_key f (rev xs))"

definition select_bucket ::
    "Platform option \<Rightarrow> CondaPip \<Rightarrow> Meta list \<Rightarrow> py_error + (Meta \<times> warning list)" where
  "select_bucket platform wh metas =
     (if length metas > 1 then
        (case sort_reverse sort_key_of metas of
           [] \<Rightarrow> Inl IndexError
         | selected_meta # rest \<Rightarrow>
             (let discarded_metas = filter (\<lambda>m. m \<noteq> selected_meta) rest
              in Inr (selected_meta,
                      if discarded_metas \<noteq> []
                      then [PlatformConflict platform selected_meta wh discarded_metas]
                      else [])))
      else
        (case metas of
           [] \<Rightarrow> Inl IndexError
         | m # rest \<Rightarrow> Inr (m, [])))"

text \<open>
  The two loops of the selector.  The warnings emitted so far are returned also when
  an exception ends the run.
\<close>

fun select_sources ::
    "Platform option \<Rightarrow> sources \<Rightarrow> selected \<Rightarrow> warning list \<times> (py_error + selected)" where
  "select_sources platform [] acc = ([], Inr acc)"
| "select_sources platform ((wh, metas) # rest) acc =
     (case select_bucket platform wh metas of
        Inl e \<Rightarrow> ([], Inl e)
      | Inr (selected_meta, ws) \<Rightarrow>
          (case select_sources platform rest (AList.update wh selected_meta acc) of
             (ws', r) \<Rightarrow> (ws @ ws', r)))"

fun select_platforms :: "grouped \<Rightarrow> reduced \<Rightarrow> warning list \<times> (py_error + reduced)" where
  "select_platforms [] reduced_data = ([], Inr reduced_data)"
| "select_platforms ((platform, packages) # rest) reduced_data =
     (case select_sources platform packages [] of
        (ws, Inl e) \<Rightarrow> (ws, Inl e)
      | (ws, Inr srcs) \<Rightarrow>
          (case select_platforms rest (AList.update platform srcs reduced_data) of
             (ws', r) \<Rightarrow> (ws @ ws', r)))"

definition select_preferred_version_within_platform ::
    "grouped \<Rightarrow> warning list \<times> (py_error + reduced)" where
  "select_preferred_version_within_platform data = select_platforms data []"

text \<open>The selector's output, each selected Declaration put back into a list of its own.\<close>

definition singleton_buckets :: "reduced \<Rightarrow> grouped" where
  "singleton_buckets reduced_data =
     map (\<lambda>(platform, srcs). (platform, map (\<lambda>(wh, m). (wh, [m])) srcs)) reduced_data"

section \<open>The cross-ecosystem reconciler\<close>

text \<open>Truth value of a pin: \<open>None\<close> and the empty string are falsy.\<close>

definition truthy :: "string option \<Rightarrow> bool" where
  "truthy p = (case p of None \<Rightarrow> False | Some s \<Rightarrow> s \<noteq> [])"

definition resolve_conda_pip_conflicts :: "selected \<Rightarrow> selected \<times> warning list" where
  "resolve_conda_pip_conflicts srcs =
     (case map_of srcs Conda of
        None \<Rightarrow> (srcs, [])
      | Some conda_meta \<Rightarrow>
          (case map_of srcs Pip of
             None \<Rightarrow> (srcs, [])
           | Some pip_meta \<Rightarrow>
               if truthy (pin conda_meta) \<and> \<not> truthy (pin pip_meta)
               then ([(Conda, conda_meta)], [])
               else if truthy (pin pip_meta) \<and> \<not> truthy (pin conda_meta)
               then ([(Pip, pip_meta)], [])
               else if pin conda_meta = pin pip_meta
               then ([(Conda, conda_meta), (Pip, pip_meta)], [])
               else ([(Conda, conda_meta), (Pip, pip_meta)],
                     [PinningConflict (pin conda_meta) (pin pip_meta)])))"

section \<open>Resolving a whole mapping\<close>

text \<open>The dictionary comprehension that runs the selector on every package.\<close>

fun select_packages ::
    "(string \<times> grouped) list \<Rightarrow> (string \<times> reduced) list
       \<Rightarrow> warning list \<times> (py_error + (string \<times> reduced) list)" where
  "select_packages [] resolved = ([], Inr resolved)"
| "select_packages ((pkg, data) # rest) resolved =
     (case select_preferred_version_within_platform data of
        (ws, Inl e) \<Rightarrow> (ws, Inl e)
      | (ws, Inr red) \<Rightarrow>
          (case select_packages rest (AList.update pkg red resolved) of
             (ws', r) \<Rightarrow> (ws @ ws', r)))"

text \<open>
  The loop that replaces the value at every platform by the reconciler's result;
  the keys and their order stay.
\<close>

definition reconcile_platforms :: "reduced \<Rightarrow> reduced \<times> warning list" where
  "reconcile_platforms platforms_dict =
     (map (\<lambda>(platform, srcs). (platform, fst (resolve_conda_pip_conflicts srcs))) platforms_dict,
      concat (map (\<lambda>(platform, srcs). snd (resolve_conda_pip_conflicts srcs)) platforms_dict))"

definition resolve_conflicts ::
    "(string \<times> Meta list) list \<Rightarrow> warning list \<times> (py_error + (string \<times> reduced) list)" where
  "resolve_conflicts requirements =
     (let prepared = prepare_metas_for_conflict_resolution requirements in
      case select_packages prepared [] of
        (ws, Inl e) \<Rightarrow> (ws, Inl e)
      | (ws, Inr resolved) \<Rightarrow>
          (ws @ concat (map (\<lambda>(pkg, platforms_dict). snd (reconcile_platforms platforms_dict)) resolved),
           Inr (map (\<lambda>(pkg, platforms_dict). (pkg, fst (reconcile_platforms platforms_dict))) resolved)))"

section \<open>Lookups and invariants used in the statements\<close>

text \<open>
  What the grouper builds: a dictionary of dictionaries with distinct keys on both
  levels, in which no list is empty.
\<close>

definition well_grouped :: "grouped \<Rightarrow> bool" where
  "well_grouped g =
     (distinct (map fst g)
      \<and> (\<forall>(platform, srcs)\<in>set g.
            distinct (map fst srcs) \<and> (\<forall>(wh, metas)\<in>set srcs. metas \<noteq> [])))"

text \<open>The Declaration held at \<open>[platform][wh]\<close>, and at \<open>[package][platform][wh]\<close>.\<close>

definition slot :: "reduced \<Rightarrow> Platform option \<Rightarrow> CondaPip \<Rightarrow> Meta option" where
  "slot red platform wh = (case map_of red platform of None \<Rightarrow> None | Some srcs \<Rightarrow> map_of srcs wh)"

definition output_slot ::
    "(string \<times> reduced) list \<Rightarrow> string \<Rightarrow> Platform option \<Rightarrow> CondaPip \<Rightarrow> Meta option" where
  "output_slot out package platform wh =
     (case map_of out package of None \<Rightarrow> None | Some red \<Rightarrow> slot red platform wh)"

section \<open>Properties of the string functions\<close>

lemma set_dropWhile_cases: "c \<in> set xs \<Longrightarrow> P c \<or> c \<in> set (dropWhile P xs)"
  by (induction xs) auto

lemma set_strip_cases: "c \<in> set s \<Longrightarrow> is_space c \<or> c \<in> set (strip s)"
proof -
  assume "c \<in> set s"
  then have "is_space c \<or> c \<in> set (dropWhile is_space s)"
    by (rule set_dropWhile_cases)
  moreover have "c \<in> set (dropWhile is_space s) \<Longrightarrow> is_space c \<or> c \<in> set (strip s)"
    using set_dropWhile_cases [of c "rev (dropWhile is_space s)" is_space]
    by (simp add: strip_def)
  ultimately show ?thesis by blast
qed

lemma parse_digits_chars:
  "parse_digits s acc = Some v \<Longrightarrow> c \<in> set s \<Longrightarrow> is_digit c \<or> c = CHR ''_''"
  by (induction s acc rule: parse_digits.induct) (auto split: if_splits list.splits)

lemma parse_unsigned_chars:
  "parse_unsigned s = Some v \<Longrightarrow> c \<in> set s \<Longrightarrow> is_digit c \<or> c = CHR ''_''"
  by (auto simp: parse_unsigned_def split: list.splits if_splits dest: parse_digits_chars)

lemma py_int_chars:
  assumes "py_int s = Some v" and "c \<in> set s"
  shows "int_char c"
proof -
  from assms(2) have "is_space c \<or> c \<in> set (strip s)" by (rule set_strip_cases)
  moreover have "int_char c" if "c \<in> set (strip s)"
    using assms(1) that
    by (auto simp: py_int_def int_char_def split: list.splits if_splits
        dest: parse_unsigned_chars)
  ultimately show ?thesis by (auto simp: int_char_def)
qed

lemma int_char_not_angle: "int_char c \<Longrightarrow> c \<noteq> CHR ''<'' \<and> c \<noteq> CHR ''>''"
  by (auto simp: int_char_def is_space_def is_digit_def)

lemma startswith_hd: "startswith s (c # cs) \<Longrightarrow> c \<in> set s"
  by (cases s) auto

lemma contains_hd: "contains s (c # cs) \<Longrightarrow> c \<in> set s"
  by (induction s) (auto dest: startswith_hd)

lemma startswith_eq_iff: "startswith p ''='' \<longleftrightarrow> (\<exists>s. p = CHR ''='' # s)"
  by (cases p) auto

lemma exact_parse:
  assumes "is_valid_pinning p" and "startswith p ''=''"
  shows "parse_pinning p = Inr ('''', 0)"
proof -
  from assms(2) obtain s where p: "p = CHR ''='' # s"
    by (auto simp: startswith_eq_iff)
  with assms(1) obtain v where "py_int s = Some v"
    by (auto simp: is_valid_pinning_def split: option.splits if_splits)
  then have "\<forall>c\<in>set s. c \<noteq> CHR ''<'' \<and> c \<noteq> CHR ''>''"
    using py_int_chars int_char_not_angle by blast
  then have "CHR ''<'' \<notin> set p" "CHR ''>'' \<notin> set p"
    using p by auto
  then have "\<not> contains p ''<=''" "\<not> contains p ''>=''" "\<not> contains p ''<''" "\<not> contains p ''>''"
    using contains_hd by blast+
  then show ?thesis by (simp add: parse_pinning_def)
qed

lemma parse_pinning_op:
  "parse_pinning p = Inr (op, v) \<Longrightarrow> op \<in> set ['''', ''<='', ''>='', ''<'', ''>'']"
  by (auto simp: parse_pinning_def split: if_splits option.splits)

lemma comparison_parse:
  assumes "is_valid_pinning p" and "\<not> startswith p ''=''"
  shows "\<exists>op v. parse_pinning p = Inr (op, v) \<and> op \<in> set [''<='', ''>='', ''<'', ''>'']"
  using assms
  by (auto simp: is_valid_pinning_def parse_pinning_def split: if_splits sum.splits option.splits)

lemma valid_parse:
  "is_valid_pinning p \<Longrightarrow> \<exists>op v. parse_pinning p = Inr (op, v)"
  using exact_parse comparison_parse by blast

section \<open>The loops of the combiner\<close>

lemma pin_op_ver: "parse_pinning p = Inr (op, v) \<Longrightarrow> pin_op p = op \<and> pin_ver p = v"
  by (simp add: pin_op_def pin_ver_def)

lemma is_redundant_loop_step:
  assumes "parse_pinning other = Inr r"
  shows "is_redundant_loop p (pin_op p) (pin_ver p) (other # rest) =
     (if redundant_by p other then Inr True
      else is_redundant_loop p (pin_op p) (pin_ver p) rest)"
proof -
  obtain oop over where r: "r = (oop, over)" by (cases r)
  have ov: "pin_op other = oop" "pin_ver other = over"
    using assms r by (simp_all add: pin_op_ver)
  show ?thesis
  proof (cases "other = p")
    case True
    then show ?thesis by (simp add: redundant_by_def)
  next
    case False
    have "is_redundant_loop p (pin_op p) (pin_ver p) (other # rest) =
      (if is_upper p \<and> is_upper other \<and> pin_ver other \<le> pin_ver p then Inr True
       else if is_lower p \<and> is_lower other \<and> pin_ver p \<le> pin_ver other then Inr True
       else is_redundant_loop p (pin_op p) (pin_ver p) rest)"
      unfolding is_upper_def is_lower_def ov
      using False assms r by simp
    then show ?thesis using False by (simp add: redundant_by_def)
  qed
qed

lemma not_upper_and_lower: "\<not> (is_upper p \<and> is_lower p)"
  by (auto simp: is_upper_def is_lower_def)

lemma is_redundant_loop_spec:
  assumes "\<forall>q\<in>set others. \<exists>r. parse_pinning q = Inr r"
  shows "is_redundant_loop p (pin_op p) (pin_ver p) others = Inr (list_ex (redundant_by p) others)"
  using assms
proof (induction others)
  case Nil
  then show ?case by simp
next
  case (Cons other rest)
  then obtain r where "parse_pinning other = Inr r" by fastforce
  then have "is_redundant_loop p (pin_op p) (pin_ver p) (other # rest) =
     (if redundant_by p other then Inr True
      else is_redundant_loop p (pin_op p) (pin_ver p) rest)"
    by (rule is_redundant_loop_step)
  moreover have "is_redundant_loop p (pin_op p) (pin_ver p) rest = Inr (list_ex (redundant_by p) rest)"
    using Cons by simp
  ultimately show ?case by simp
qed

lemma is_redundant_spec:
  assumes "\<forall>q\<in>set others. \<exists>r. parse_pinning q = Inr r" and "\<exists>r. parse_pinning p = Inr r"
  shows "is_redundant p others = Inr (list_ex (redundant_by p) others)"
proof -
  from assms(2) obtain op v where pv: "parse_pinning p = Inr (op, v)" by fastforce
  then have "pin_op p = op" "pin_ver p = v" by (simp_all add: pin_op_ver)
  then show ?thesis
    using is_redundant_loop_spec [OF assms(1), of p] pv by (simp add: is_redundant_def)
qed

lemma non_redundant_spec:
  assumes "\<forall>q\<in>set valid. \<exists>r. parse_pinning q = Inr r" and "set ps \<subseteq> set valid"
  shows "non_redundant ps valid = Inr (filter (\<lambda>p. \<not> list_ex (redundant_by p) valid) ps)"
  using assms(2)
proof (induction ps)
  case Nil
  then show ?case by simp
next
  case (Cons p ps)
  then have "\<exists>r. parse_pinning p = Inr r" using assms(1) by simp
  then have "is_redundant p valid = Inr (list_ex (redundant_by p) valid)"
    using is_redundant_spec [OF assms(1)] by blast
  then show ?case using Cons by simp
qed

lemma non_redundant_surviving:
  assumes "\<forall>q\<in>set valid. \<exists>r. parse_pinning q = Inr r"
  shows "non_redundant valid valid = Inr (surviving valid)"
  using non_redundant_spec [OF assms, of valid] by (simp add: surviving_def)

lemma contra_inner_spec:
  assumes "\<exists>r. parse_pinning pn = Inr r" and "\<forall>q\<in>set rest. \<exists>r. parse_pinning q = Inr r"
  shows "if \<exists>q\<in>set rest. pair_contradiction pn q \<or> pair_contradiction q pn
         then is_contradiction_error (contra_inner pn rest)
         else contra_inner pn rest = Inr ()"
  using assms(2)
proof (induction rest)
  case Nil
  then show ?case by simp
next
  case (Cons other rest)
  from assms(1) obtain op1 ver1 where p1: "parse_pinning pn = Inr (op1, ver1)" by fastforce
  from Cons.prems obtain op2 ver2 where p2: "parse_pinning other = Inr (op2, ver2)" by fastforce
  have pv: "pin_op pn = op1" "pin_ver pn = ver1" "pin_op other = op2" "pin_ver other = ver2"
    using p1 p2 by (simp_all add: pin_op_ver)
  have step: "(pair_contradiction pn other \<or> pair_contradiction other pn) \<longleftrightarrow>
      ((op1 \<in> set [''<'', ''<=''] \<and> op2 \<in> set [''>'', ''>=''] \<and> ver1 < ver2)
       \<or> (op2 \<in> set [''<'', ''<=''] \<and> op1 \<in> set [''>'', ''>=''] \<and> ver2 < ver1))"
    unfolding pair_contradiction_def is_upper_def is_lower_def pv by blast
  have eq: "contra_inner pn (other # rest) =
      (if pair_contradiction pn other \<or> pair_contradiction other pn
       then Inl (Contradictory pn other) else contra_inner pn rest)"
    unfolding step using p1 p2 by simp
  have IH: "if \<exists>q\<in>set rest. pair_contradiction pn q \<or> pair_contradiction q pn
         then is_contradiction_error (contra_inner pn rest)
         else contra_inner pn rest = Inr ()"
    using Cons by simp
  show ?case
  proof (cases "pair_contradiction pn other \<or> pair_contradiction other pn")
    case True
    then show ?thesis using eq by (simp add: is_contradiction_error_def)
  next
    case False
    then have "contra_inner pn (other # rest) = contra_inner pn rest"
      using eq by simp
    then show ?thesis using False IH by simp
  qed
qed

lemma cross_contradiction_Cons:
  "cross_contradiction (p # rest) \<longleftrightarrow>
     (\<exists>q\<in>set rest. pair_contradiction p q \<or> pair_contradiction q p) \<or> cross_contradiction rest"
proof -
  have "\<not> pair_contradiction p p"
    using not_upper_and_lower by (auto simp: pair_contradiction_def)
  then show ?thesis
    by (auto simp: cross_contradiction_def list_ex_iff)
qed

lemma contra_outer_spec:
  assumes "\<forall>q\<in>set ps. \<exists>r. parse_pinning q = Inr r"
  shows "if cross_contradiction ps then is_contradiction_error (contra_outer ps)
         else contra_outer ps = Inr ()"
  using assms
proof (induction ps)
  case Nil
  then show ?case by (simp add: cross_contradiction_def)
next
  case (Cons p rest)
  have inner: "if \<exists>q\<in>set rest. pair_contradiction p q \<or> pair_contradiction q p
         then is_contradiction_error (contra_inner p rest)
         else contra_inner p rest = Inr ()"
    using contra_inner_spec [of p rest] Cons.prems by simp
  have IH: "if cross_contradiction rest then is_contradiction_error (contra_outer rest)
         else contra_outer rest = Inr ()"
    using Cons by simp
  show ?case
  proof (cases "\<exists>q\<in>set rest. pair_contradiction p q \<or> pair_contradiction q p")
    case True
    then have "is_contradiction_error (contra_inner p rest)" using inner by simp
    then have "is_contradiction_error (contra_outer (p # rest))"
      by (auto simp: is_contradiction_error_def split: sum.splits py_error.splits)
    then show ?thesis using True by (simp add: cross_contradiction_Cons)
  next
    case False
    then have "contra_inner p rest = Inr ()" using inner by simp
    then have "contra_outer (p # rest) = contra_outer rest" by simp
    then show ?thesis using False IH by (simp add: cross_contradiction_Cons)
  qed
qed

lemma min_loop_spec:
  assumes "\<forall>q\<in>set ps. \<exists>r. parse_pinning q = Inr r"
  shows "\<exists>r. min_loop best (pin_ver best) ps = Inr r \<and> r \<in> set (best # ps)
           \<and> (\<forall>p\<in>set (best # ps). pin_ver r \<le> pin_ver p)"
  using assms
proof (induction ps arbitrary: best)
  case Nil
  then show ?case by simp
next
  case (Cons p ps)
  then obtain op v where pp: "parse_pinning p = Inr (op, v)" by fastforce
  then have v: "pin_ver p = v" by (simp add: pin_op_ver)
  have rest: "\<forall>q\<in>set ps. \<exists>r. parse_pinning q = Inr r" using Cons.prems by simp
  show ?case
  proof (cases "v < pin_ver best")
    case True
    then have eq: "min_loop best (pin_ver best) (p # ps) = min_loop p (pin_ver p) ps"
      using pp v by simp
    from Cons.IH [OF rest, of p] obtain r where r: "min_loop p (pin_ver p) ps = Inr r"
      "r \<in> set (p # ps)" "\<forall>q\<in>set (p # ps). pin_ver r \<le> pin_ver q" by blast
    have "pin_ver r \<le> pin_ver p" using r(3) by simp
    then have "pin_ver r \<le> pin_ver best" using True v by linarith
    then show ?thesis unfolding eq using r by auto
  next
    case False
    then have eq: "min_loop best (pin_ver best) (p # ps) = min_loop best (pin_ver best) ps"
      using pp by simp
    from Cons.IH [OF rest, of best] obtain r where r: "min_loop best (pin_ver best) ps = Inr r"
      "r \<in> set (best # ps)" "\<forall>q\<in>set (best # ps). pin_ver r \<le> pin_ver q" by blast
    have "pin_ver r \<le> pin_ver best" using r(3) by simp
    then have "pin_ver r \<le> pin_ver p" using False v by linarith
    then show ?thesis unfolding eq using r by auto
  qed
qed

lemma min_by_version_spec:
  assumes "\<forall>q\<in>set xs. \<exists>r. parse_pinning q = Inr r" and "xs \<noteq> []"
  shows "\<exists>r. min_by_version xs = Inr r \<and> r \<in> set xs \<and> (\<forall>p\<in>set xs. pin_ver r \<le> pin_ver p)"
proof -
  from assms(2) obtain p ps where xs: "xs = p # ps" by (cases xs) auto
  with assms(1) obtain op v where pp: "parse_pinning p = Inr (op, v)" by fastforce
  then have v: "pin_ver p = v" by (simp add: pin_op_ver)
  have "\<forall>q\<in>set ps. \<exists>r. parse_pinning q = Inr r" using assms(1) xs by simp
  from min_loop_spec [OF this, of p] obtain r where "min_loop p (pin_ver p) ps = Inr r"
    "r \<in> set (p # ps)" "\<forall>q\<in>set (p # ps). pin_ver r \<le> pin_ver q" by blast
  then show ?thesis using xs pp v by (simp add: min_by_version_def)
qed

lemma valid_all_parse:
  "\<forall>q\<in>set (filter is_valid_pinning pinnings). \<exists>r. parse_pinning q = Inr r"
  using valid_parse by auto

lemma exact_check_step:
  assumes "parse_pinning other = Inr r"
  shows "exact_check e n (other # rest) =
     (if other \<noteq> e \<and> clashes_with_exact n other then Inl (Contradictory e other)
      else exact_check e n rest)"
proof -
  obtain op ver where r: "r = (op, ver)" by (cases r)
  have ov: "pin_op other = op" "pin_ver other = ver"
    using assms r by (simp_all add: pin_op_ver)
  have "exact_check e n (other # rest) =
     (if other \<noteq> e then
        (if clashes_with_exact n other then Inl (Contradictory e other)
         else exact_check e n rest)
      else exact_check e n rest)"
    unfolding clashes_with_exact_def is_upper_def is_lower_def ov
    using assms r by simp
  then show ?thesis by simp
qed

lemma exact_check_spec:
  assumes "\<forall>q\<in>set xs. \<exists>r. parse_pinning q = Inr r"
  shows "if \<exists>q\<in>set xs. q \<noteq> e \<and> clashes_with_exact n q
         then is_contradiction_error (exact_check e n xs)
         else exact_check e n xs = Inr ()"
  using assms
proof (induction xs)
  case Nil
  then show ?case by simp
next
  case (Cons other rest)
  then obtain r where "parse_pinning other = Inr r" by fastforce
  then have eq: "exact_check e n (other # rest) =
     (if other \<noteq> e \<and> clashes_with_exact n other then Inl (Contradictory e other)
      else exact_check e n rest)"
    by (rule exact_check_step)
  have IH: "if \<exists>q\<in>set rest. q \<noteq> e \<and> clashes_with_exact n q
         then is_contradiction_error (exact_check e n rest)
         else exact_check e n rest = Inr ()"
    using Cons by simp
  show ?case
  proof (cases "other \<noteq> e \<and> clashes_with_exact n other")
    case True
    then show ?thesis using eq by (auto simp: is_contradiction_error_def)
  next
    case False
    then have "exact_check e n (other # rest) = exact_check e n rest"
      using eq by auto
    then show ?thesis using False IH by auto
  qed
qed

lemma exact_pin_value:
  assumes "is_valid_pinning p" and "is_exact p"
  shows "py_int (tl p) = Some (exact_value p)"
  using assms
  by (auto simp: is_valid_pinning_def is_exact_def exact_value_def startswith_eq_iff
      split: option.splits if_splits)

lemma contradiction_error_not_Inr: "is_contradiction_error r \<Longrightarrow> r \<noteq> Inr v"
  by (auto simp: is_contradiction_error_def)

lemma combine_exact_behaviour:
  assumes "filter is_exact (filter is_valid_pinning pinnings) = e # es"
  shows "if \<exists>q\<in>set (filter is_valid_pinning pinnings). q \<noteq> e \<and> clashes_with_exact (exact_value e) q
         then is_contradiction_error (combine_version_pinnings pinnings)
         else combine_version_pinnings pinnings = Inr e"
proof -
  define valid where "valid = filter is_valid_pinning pinnings"
  have e_in: "e \<in> set (filter is_exact valid)" using assms by (simp add: valid_def)
  then have ev: "is_valid_pinning e" "is_exact e" by (auto simp: valid_def)
  have ne: "valid \<noteq> []" using e_in by auto
  have ex: "filter (\<lambda>p. startswith p ''='') valid = e # es"
    using assms by (simp add: valid_def is_exact_def [abs_def])
  have pv: "py_int (tl e) = Some (exact_value e)" using ev by (rule exact_pin_value)
  have parse: "\<forall>q\<in>set valid. \<exists>r. parse_pinning q = Inr r"
    unfolding valid_def by (rule valid_all_parse)
  have comb: "combine_version_pinnings pinnings =
      (case exact_check e (exact_value e) valid of Inl err \<Rightarrow> Inl err | Inr u \<Rightarrow> Inr e)"
    using ne ex pv
    by (simp add: combine_version_pinnings_def valid_def [symmetric] split: sum.splits)
  have chk: "if \<exists>q\<in>set valid. q \<noteq> e \<and> clashes_with_exact (exact_value e) q
         then is_contradiction_error (exact_check e (exact_value e) valid)
         else exact_check e (exact_value e) valid = Inr ()"
    using parse by (rule exact_check_spec)
  show ?thesis
  proof (cases "\<exists>q\<in>set valid. q \<noteq> e \<and> clashes_with_exact (exact_value e) q")
    case True
    then have "is_contradiction_error (exact_check e (exact_value e) valid)" using chk by simp
    then have "is_contradiction_error (combine_version_pinnings pinnings)"
      unfolding comb by (auto simp: is_contradiction_error_def split: sum.splits py_error.splits)
    then show ?thesis using True by (auto simp: valid_def)
  next
    case False
    then have "exact_check e (exact_value e) valid = Inr ()" using chk by simp
    then have "combine_version_pinnings pinnings = Inr e" unfolding comb by simp
    then show ?thesis using False by (auto simp: valid_def)
  qed
qed

lemma clashes_iff_unsatisfied:
  assumes "pin_op q \<in> set [''<'', ''>''] \<or> n \<noteq> pin_ver q"
  shows "clashes_with_exact n q \<longleftrightarrow> \<not> satisfies n q"
  using assms
  by (auto simp: clashes_with_exact_def satisfies_def is_upper_def is_lower_def)

lemma combine_comparison_behaviour:
  assumes "filter is_exact (filter is_valid_pinning pinnings) = []"
    and "filter is_valid_pinning pinnings \<noteq> []"
  shows "combine_version_pinnings pinnings =
     (case contra_outer (surviving (filter is_valid_pinning pinnings)) of
        Inl e \<Rightarrow> Inl e
      | Inr u \<Rightarrow>
          if surviving (filter is_valid_pinning pinnings) = [] then
            (if filter is_inclusive (filter is_valid_pinning pinnings) \<noteq> []
             then min_by_version (filter is_inclusive (filter is_valid_pinning pinnings))
             else min_by_version (filter is_valid_pinning pinnings))
          else Inr (join '','' (surviving (filter is_valid_pinning pinnings))))"
proof -
  define valid where "valid = filter is_valid_pinning pinnings"
  have parse: "\<forall>q\<in>set valid. \<exists>r. parse_pinning q = Inr r"
    unfolding valid_def by (rule valid_all_parse)
  have nr: "non_redundant valid valid = Inr (surviving valid)"
    using parse by (rule non_redundant_surviving)
  have ex: "filter (\<lambda>p. startswith p ''='') valid = []"
    using assms(1) by (simp add: valid_def is_exact_def [abs_def])
  have incl: "filter (\<lambda>p. startswith p ''<='' \<or> startswith p ''>='') valid = filter is_inclusive valid"
    by (simp add: is_inclusive_def [abs_def])
  have ne: "valid \<noteq> []" using assms(2) by (simp add: valid_def)
  show ?thesis
    unfolding valid_def [symmetric]
    using ne ex nr incl
    by (simp add: combine_version_pinnings_def valid_def [symmetric] Let_def)
qed

lemma surviving_subset: "set (surviving valid) \<subseteq> set valid"
  by (auto simp: surviving_def)

section \<open>The combiner\<close>

lemma combine_no_valid:
  "filter is_valid_pinning pinnings = [] \<Longrightarrow> combine_version_pinnings pinnings = Inr ''''"
  by (simp add: combine_version_pinnings_def)

lemma surviving_single: "surviving [p] = [p]"
  by (simp add: surviving_def redundant_by_def)

lemma combine_spec_examples:
  "combine_version_pinnings [''>=1''] = Inr ''>=1''"
  "combine_version_pinnings [''=2'', ''<5''] = Inr ''=2''"
  "combine_version_pinnings [''=2'', ''<1''] = Inl (Contradictory ''=2'' ''<1'')"
  "combine_version_pinnings [''>=1'', ''>=2''] = Inr ''>=2''"
  "combine_version_pinnings [''<3'', ''<5''] = Inr ''<3''"
  "combine_version_pinnings [''>=1'', ''<5''] = Inr ''>=1,<5''"
  "combine_version_pinnings [''>5'', ''<3''] = Inl (Contradictory ''>5'' ''<3'')"
  "combine_version_pinnings [''garbage''] = Inr ''''"
  by code_simp+

text \<open>
  Claim C1.  With an exact pin \<open>=N\<close> among the valid pins, the combiner is to raise
  exactly when another valid comparison pin states a bound that \<open>N\<close> does not satisfy.
  The exact-pin loop tests \<open>exact_version >= ver\<close> for \<open><=\<close> as for \<open><\<close> (and
  \<open>exact_version <= ver\<close> for \<open>>=\<close> as for \<open>>\<close>): on \<open>["=2", "<=2"]\<close> it raises
  the contradiction error although 2 satisfies \<open><=2\<close>.
\<close>

theorem exact_pin_at_inclusive_threshold:
  "combine_version_pinnings [''=2'', ''<=2''] = Inl (Contradictory ''=2'' ''<=2'')
   \<and> satisfies (exact_value ''=2'') ''<=2''"
  by code_simp

text \<open>
  Claim C2, amended.  When no valid pin is exact, the combiner raises the contradiction
  error exactly when, among the pins that survive the redundancy filter, some upper bound
  is strictly below some lower bound.  Otherwise it returns the surviving pins joined by
  a comma, in their original order, provided at least one pin survives (or no pin is
  valid at all, where the result is the empty string); when every valid pin was dropped
  as redundant it returns one of the valid pins instead of the empty join.
\<close>

theorem combine_comparison_pins:
  assumes "filter is_exact (filter is_valid_pinning pinnings) = []"
  shows "(is_contradiction_error (combine_version_pinnings pinnings)
            \<longleftrightarrow> cross_contradiction (surviving (filter is_valid_pinning pinnings)))
       \<and> (\<not> cross_contradiction (surviving (filter is_valid_pinning pinnings))
            \<and> (surviving (filter is_valid_pinning pinnings) \<noteq> [] \<or> filter is_valid_pinning pinnings = [])
          \<longrightarrow> combine_version_pinnings pinnings
                = Inr (join '','' (surviving (filter is_valid_pinning pinnings))))
       \<and> (surviving (filter is_valid_pinning pinnings) = [] \<and> filter is_valid_pinning pinnings \<noteq> []
          \<longrightarrow> (\<exists>r\<in>set (filter is_valid_pinning pinnings). combine_version_pinnings pinnings = Inr r))"
proof (cases "filter is_valid_pinning pinnings = []")
  case True
  then have "combine_version_pinnings pinnings = Inr ''''" by (rule combine_no_valid)
  then show ?thesis using True
    by (simp add: surviving_def cross_contradiction_def is_contradiction_error_def)
next
  case False
  define valid where "valid = filter is_valid_pinning pinnings"
  have ne: "valid \<noteq> []" using False by (simp add: valid_def)
  have parse: "\<forall>q\<in>set valid. \<exists>r. parse_pinning q = Inr r"
    unfolding valid_def by (rule valid_all_parse)
  then have sparse: "\<forall>q\<in>set (surviving valid). \<exists>r. parse_pinning q = Inr r"
    using surviving_subset by blast
  have comb: "combine_version_pinnings pinnings =
     (case contra_outer (surviving valid) of
        Inl e \<Rightarrow> Inl e
      | Inr u \<Rightarrow>
          if surviving valid = [] then
            (if filter is_inclusive valid \<noteq> [] then min_by_version (filter is_inclusive valid)
             else min_by_version valid)
          else Inr (join '','' (surviving valid)))"
    unfolding valid_def using assms False by (rule combine_comparison_behaviour)
  have contra: "if cross_contradiction (surviving valid)
         then is_contradiction_error (contra_outer (surviving valid))
         else contra_outer (surviving valid) = Inr ()"
    using sparse by (rule contra_outer_spec)
  have fallback: "\<exists>r\<in>set valid. (if filter is_inclusive valid \<noteq> []
          then min_by_version (filter is_inclusive valid) else min_by_version valid) = Inr r"
  proof (cases "filter is_inclusive valid \<noteq> []")
    case True
    have "\<forall>q\<in>set (filter is_inclusive valid). \<exists>r. parse_pinning q = Inr r" using parse by simp
    from min_by_version_spec [OF this True] show ?thesis using True by auto
  next
    case False
    from min_by_version_spec [OF parse ne] show ?thesis using False by auto
  qed
  show ?thesis
  proof (cases "cross_contradiction (surviving valid)")
    case True
    then have "is_contradiction_error (contra_outer (surviving valid))" using contra by simp
    then have "is_contradiction_error (combine_version_pinnings pinnings)"
      unfolding comb by (auto simp: is_contradiction_error_def split: sum.splits py_error.splits)
    moreover have "surviving valid \<noteq> []" using True by (auto simp: cross_contradiction_def)
    ultimately show ?thesis using True by (simp add: valid_def)
  next
    case nc: False
    then have co: "contra_outer (surviving valid) = Inr ()" using contra by simp
    show ?thesis
    proof (cases "surviving valid = []")
      case True
      then have "combine_version_pinnings pinnings =
         (if filter is_inclusive valid \<noteq> [] then min_by_version (filter is_inclusive valid)
          else min_by_version valid)"
        unfolding comb co by simp
      with fallback obtain r where "r \<in> set valid" "combine_version_pinnings pinnings = Inr r"
        by auto
      then show ?thesis using nc True ne
        by (auto simp: valid_def [symmetric] is_contradiction_error_def)
    next
      case False
      then have "combine_version_pinnings pinnings = Inr (join '','' (surviving valid))"
        unfolding comb co by simp
      then show ?thesis using nc False
        by (simp add: valid_def [symmetric] is_contradiction_error_def)
    qed
  qed
qed

text \<open>
  The theorem at \<open>[">=1", "<5", "<7"]\<close>: \<open><7\<close> is redundant, no contradiction.
\<close>

theorem combine_comparison_pins_witness:
  "filter is_exact (filter is_valid_pinning [''>=1'', ''<5'', ''<7'']) = []
   \<and> combine_version_pinnings [''>=1'', ''<5'', ''<7''] = Inr ''>=1,<5''"
proof -
  have h: "filter is_exact (filter is_valid_pinning [''>=1'', ''<5'', ''<7'']) = []"
    by code_simp
  have s: "surviving (filter is_valid_pinning [''>=1'', ''<5'', ''<7'']) = [''>=1'', ''<5'']"
    by code_simp
  have c: "\<not> cross_contradiction [''>=1'', ''<5'']"
    by code_simp
  show ?thesis
    using h combine_comparison_pins [OF h] c unfolding s by simp
qed

text \<open>
  Claim C2 as stated fails at \<open>["<3", "<=3"]\<close>: each pin makes the other redundant, no
  pin survives, nothing contradicts, and the result is not the join of the survivors.
\<close>

theorem fallback_instead_of_empty_join:
  "filter is_exact (filter is_valid_pinning [''<3'', ''<=3'']) = []
   \<and> \<not> cross_contradiction (surviving (filter is_valid_pinning [''<3'', ''<=3'']))
   \<and> combine_version_pinnings [''<3'', ''<=3'']
       \<noteq> Inr (join '','' (surviving (filter is_valid_pinning [''<3'', ''<=3''])))"
  by code_simp

text \<open>
  Claim C8, amended.  When no valid pin is exact and the redundancy filter leaves
  nothing of a non-empty list of valid pins, that list has at least two elements, two of
  them different strings, and the combiner returns a valid pin: one that starts with
  \<open><=\<close> or \<open>>=\<close> and has the smallest threshold among those, if there is any such pin,
  and otherwise one with the smallest threshold of all valid pins.
\<close>

theorem fallback_when_all_redundant:
  assumes "filter is_exact (filter is_valid_pinning pinnings) = []"
    and "filter is_valid_pinning pinnings \<noteq> []"
    and "surviving (filter is_valid_pinning pinnings) = []"
  shows "2 \<le> length (filter is_valid_pinning pinnings)
       \<and> (\<exists>p\<in>set (filter is_valid_pinning pinnings).
            \<exists>q\<in>set (filter is_valid_pinning pinnings). p \<noteq> q)
       \<and> (\<exists>r\<in>set (filter is_valid_pinning pinnings).
            combine_version_pinnings pinnings = Inr r
            \<and> (if \<exists>p\<in>set (filter is_valid_pinning pinnings). is_inclusive p
               then is_inclusive r
                    \<and> (\<forall>p\<in>set (filter is_valid_pinning pinnings).
                          is_inclusive p \<longrightarrow> pin_ver r \<le> pin_ver p)
               else (\<forall>p\<in>set (filter is_valid_pinning pinnings). pin_ver r \<le> pin_ver p)))"
proof -
  define valid where "valid = filter is_valid_pinning pinnings"
  have ne: "valid \<noteq> []" using assms(2) by (simp add: valid_def)
  have sv: "surviving valid = []" using assms(3) by (simp add: valid_def)
  have parse: "\<forall>q\<in>set valid. \<exists>r. parse_pinning q = Inr r"
    unfolding valid_def by (rule valid_all_parse)
  from ne obtain p ps where v: "valid = p # ps" by (cases valid) auto
  have "p \<notin> set (surviving valid)" using sv by simp
  moreover have "p \<in> set valid" using v by simp
  ultimately have "list_ex (redundant_by p) valid" unfolding surviving_def by simp
  then obtain q where q: "q \<in> set valid" "redundant_by p q" by (auto simp: list_ex_iff)
  then have qp: "q \<noteq> p" by (simp add: redundant_by_def)
  then have "q \<in> set ps" using q(1) v by simp
  then have len: "2 \<le> length valid" using v by (cases ps) auto
  have two: "\<exists>p\<in>set valid. \<exists>q\<in>set valid. p \<noteq> q"
    using q(1) qp v by auto
  have comb: "combine_version_pinnings pinnings =
     (case contra_outer (surviving valid) of
        Inl e \<Rightarrow> Inl e
      | Inr u \<Rightarrow>
          if surviving valid = [] then
            (if filter is_inclusive valid \<noteq> [] then min_by_version (filter is_inclusive valid)
             else min_by_version valid)
          else Inr (join '','' (surviving valid)))"
    unfolding valid_def using assms(1,2) by (rule combine_comparison_behaviour)
  have comb': "combine_version_pinnings pinnings =
      (if filter is_inclusive valid \<noteq> [] then min_by_version (filter is_inclusive valid)
       else min_by_version valid)"
    unfolding comb sv by simp
  have res: "\<exists>r\<in>set valid. combine_version_pinnings pinnings = Inr r
            \<and> (if \<exists>p\<in>set valid. is_inclusive p
               then is_inclusive r \<and> (\<forall>p\<in>set valid. is_inclusive p \<longrightarrow> pin_ver r \<le> pin_ver p)
               else (\<forall>p\<in>set valid. pin_ver r \<le> pin_ver p))"
  proof (cases "filter is_inclusive valid \<noteq> []")
    case True
    have "\<forall>q\<in>set (filter is_inclusive valid). \<exists>r. parse_pinning q = Inr r" using parse by simp
    from min_by_version_spec [OF this True] obtain r where
      r: "min_by_version (filter is_inclusive valid) = Inr r" "r \<in> set (filter is_inclusive valid)"
         "\<forall>p\<in>set (filter is_inclusive valid). pin_ver r \<le> pin_ver p" by blast
    have "\<exists>p\<in>set valid. is_inclusive p" using r(2) by auto
    then show ?thesis using r True comb' by auto
  next
    case False
    from min_by_version_spec [OF parse ne] obtain r where
      r: "min_by_version valid = Inr r" "r \<in> set valid" "\<forall>p\<in>set valid. pin_ver r \<le> pin_ver p"
      by blast
    have "\<not> (\<exists>p\<in>set valid. is_inclusive p)" using False by (auto simp: filter_empty_conv)
    then show ?thesis using r False comb' by auto
  qed
  show ?thesis using len two res unfolding valid_def by blast
qed

text \<open>
  The theorem at \<open>["<3", "<=3", "x"]\<close>.
\<close>

theorem fallback_when_all_redundant_witness:
  "filter is_exact (filter is_valid_pinning [''<3'', ''<=3'', ''x'']) = []
   \<and> filter is_valid_pinning [''<3'', ''<=3'', ''x''] \<noteq> []
   \<and> surviving (filter is_valid_pinning [''<3'', ''<=3'', ''x'']) = []
   \<and> 2 \<le> length (filter is_valid_pinning [''<3'', ''<=3'', ''x''])
   \<and> combine_version_pinnings [''<3'', ''<=3'', ''x''] = Inr ''<=3''"
proof -
  have h1: "filter is_exact (filter is_valid_pinning [''<3'', ''<=3'', ''x'']) = []" by code_simp
  have h2: "filter is_valid_pinning [''<3'', ''<=3'', ''x''] \<noteq> []" by code_simp
  have h3: "surviving (filter is_valid_pinning [''<3'', ''<=3'', ''x'']) = []" by code_simp
  have c: "combine_version_pinnings [''<3'', ''<=3'', ''x''] = Inr ''<=3''" by code_simp
  show ?thesis
    using h1 h2 h3 c fallback_when_all_redundant [OF h1 h2 h3] by blast
qed

text \<open>
  Claim C8 as stated fails at \<open>[">4", ">=4"]\<close>: both pins are valid, the filter drops
  both, and the list does not have a single element.
\<close>

theorem all_pins_redundant_in_pair:
  "filter is_valid_pinning [''>4'', ''>=4''] = [''>4'', ''>=4'']
   \<and> non_redundant [''>4'', ''>=4''] [''>4'', ''>=4''] = Inr []
   \<and> length [''>4'', ''>=4''] \<noteq> (1::nat)"
  by code_simp

section \<open>The reconciler\<close>

lemma resolve_missing:
  "map_of srcs Conda = None \<or> map_of srcs Pip = None \<Longrightarrow> resolve_conda_pip_conflicts srcs = (srcs, [])"
  by (auto simp: resolve_conda_pip_conflicts_def split: option.splits)

lemma resolve_both:
  assumes "map_of srcs Conda = Some c" and "map_of srcs Pip = Some p"
  shows "resolve_conda_pip_conflicts srcs =
     (if truthy (pin c) \<and> \<not> truthy (pin p) then ([(Conda, c)], [])
      else if truthy (pin p) \<and> \<not> truthy (pin c) then ([(Pip, p)], [])
      else if pin c = pin p then ([(Conda, c), (Pip, p)], [])
      else ([(Conda, c), (Pip, p)], [PinningConflict (pin c) (pin p)]))"
  using assms by (simp add: resolve_conda_pip_conflicts_def)

text \<open>
  Claim C5, amended.  Where an ecosystem has no entry the mapping is returned as it is.
  Where both have one and exactly one of the two pins is truthy (neither null nor the
  empty string), only the Declaration with that pin is kept, without a warning.
\<close>

theorem reconciler_missing_or_one_pinned:
  "(map_of srcs Conda = None \<or> map_of srcs Pip = None
      \<longrightarrow> resolve_conda_pip_conflicts srcs = (srcs, []))
   \<and> (map_of srcs Conda = Some c \<and> map_of srcs Pip = Some p
        \<and> truthy (pin c) \<and> \<not> truthy (pin p)
      \<longrightarrow> resolve_conda_pip_conflicts srcs = ([(Conda, c)], []))
   \<and> (map_of srcs Conda = Some c \<and> map_of srcs Pip = Some p
        \<and> truthy (pin p) \<and> \<not> truthy (pin c)
      \<longrightarrow> resolve_conda_pip_conflicts srcs = ([(Pip, p)], []))"
  using resolve_missing [of srcs] resolve_both [of srcs c p] by auto

text \<open>
  The theorem on the scenario of the specification: \<open>requests\<close> pinned \<open>=2\<close> for conda
  and not pinned for pip; and on a mapping without a conda entry.
\<close>

theorem reconciler_missing_or_one_pinned_witness:
  "map_of [(Pip, \<lparr>name = ''requests'', pin = None, which = Pip, platforms = None,
                   pprint = ''requests''\<rparr>),
           (Conda, \<lparr>name = ''requests'', pin = Some ''=2'', which = Conda, platforms = None,
                     pprint = ''requests =2''\<rparr>)] Conda
     = Some \<lparr>name = ''requests'', pin = Some ''=2'', which = Conda, platforms = None,
              pprint = ''requests =2''\<rparr>
   \<and> truthy (Some ''=2'') \<and> \<not> truthy None
   \<and> resolve_conda_pip_conflicts
        [(Pip, \<lparr>name = ''requests'', pin = None, which = Pip, platforms = None,
                 pprint = ''requests''\<rparr>),
         (Conda, \<lparr>name = ''requests'', pin = Some ''=2'', which = Conda, platforms = None,
                   pprint = ''requests =2''\<rparr>)]
     = ([(Conda, \<lparr>name = ''requests'', pin = Some ''=2'', which = Conda, platforms = None,
                    pprint = ''requests =2''\<rparr>)], [])
   \<and> map_of [(Pip, \<lparr>name = ''requests'', pin = None, which = Pip, platforms = None,
                   pprint = ''requests''\<rparr>)] Conda = None
   \<and> resolve_conda_pip_conflicts
        [(Pip, \<lparr>name = ''requests'', pin = None, which = Pip, platforms = None,
                 pprint = ''requests''\<rparr>)]
     = ([(Pip, \<lparr>name = ''requests'', pin = None, which = Pip, platforms = None,
                 pprint = ''requests''\<rparr>)], [])"
  using reconciler_missing_or_one_pinned
    [of "[(Pip, \<lparr>name = ''requests'', pin = None, which = Pip, platforms = None,
                   pprint = ''requests''\<rparr>),
           (Conda, \<lparr>name = ''requests'', pin = Some ''=2'', which = Conda, platforms = None,
                     pprint = ''requests =2''\<rparr>)]"
        "\<lparr>name = ''requests'', pin = Some ''=2'', which = Conda, platforms = None,
              pprint = ''requests =2''\<rparr>"
        "\<lparr>name = ''requests'', pin = None, which = Pip, platforms = None,
                   pprint = ''requests''\<rparr>"]
    reconciler_missing_or_one_pinned
    [of "[(Pip, \<lparr>name = ''requests'', pin = None, which = Pip, platforms = None,
                   pprint = ''requests''\<rparr>)]"]
  by (simp add: truthy_def)

text \<open>
  Claim C5 as stated fails where the one pin that is not null is the empty string: the
  reconciler tests the truth value of the pins, and both Declarations are kept.
\<close>

theorem empty_pin_kept_beside_null_pin:
  "pin \<lparr>name = ''x'', pin = Some '''', which = Conda, platforms = None, pprint = ''x''\<rparr> \<noteq> None
   \<and> pin \<lparr>name = ''x'', pin = None, which = Pip, platforms = None, pprint = ''x''\<rparr> = None
   \<and> resolve_conda_pip_conflicts
        [(Conda, \<lparr>name = ''x'', pin = Some '''', which = Conda, platforms = None, pprint = ''x''\<rparr>),
         (Pip, \<lparr>name = ''x'', pin = None, which = Pip, platforms = None, pprint = ''x''\<rparr>)]
     = ([(Conda, \<lparr>name = ''x'', pin = Some '''', which = Conda, platforms = None, pprint = ''x''\<rparr>),
         (Pip, \<lparr>name = ''x'', pin = None, which = Pip, platforms = None, pprint = ''x''\<rparr>)],
        [PinningConflict (Some '''') None])"
  by (simp add: resolve_conda_pip_conflicts_def truthy_def)

text \<open>
  Claim C6, amended.  Where both ecosystems have an entry and the two pins are equal
  (both null included), both Declarations are kept without a warning, whichever of the
  two is the conda entry; where the pins differ and both are truthy (neither null nor
  the empty string), both are kept with one warning carrying the two pins.  The
  reconciler is a total function without an error value: it never raises.
\<close>

theorem reconciler_equal_or_different_pins:
  assumes "map_of srcs Conda = Some c" and "map_of srcs Pip = Some p"
  shows "(pin c = pin p \<longrightarrow> resolve_conda_pip_conflicts srcs = ([(Conda, c), (Pip, p)], []))
       \<and> (pin c \<noteq> pin p \<and> truthy (pin c) \<and> truthy (pin p)
            \<longrightarrow> resolve_conda_pip_conflicts srcs
                  = ([(Conda, c), (Pip, p)], [PinningConflict (pin c) (pin p)]))
       \<and> (pin c = pin p
            \<longrightarrow> resolve_conda_pip_conflicts [(Conda, p), (Pip, c)] = ([(Conda, p), (Pip, c)], []))"
  using resolve_both [OF assms] resolve_both [of "[(Conda, p), (Pip, c)]" p c]
  by auto

text \<open>
  The theorem on the scenario of the specification: \<open>scipy\<close> with \<open>>=2\<close> for conda and
  \<open><1\<close> for pip.
\<close>

theorem reconciler_equal_or_different_pins_witness:
  "map_of [(Conda, \<lparr>name = ''scipy'', pin = Some ''>=2'', which = Conda, platforms = None,
                     pprint = ''scipy >=2''\<rparr>),
           (Pip, \<lparr>name = ''scipy'', pin = Some ''<1'', which = Pip, platforms = None,
                   pprint = ''scipy <1''\<rparr>)] Pip
     = Some \<lparr>name = ''scipy'', pin = Some ''<1'', which = Pip, platforms = None,
              pprint = ''scipy <1''\<rparr>
   \<and> resolve_conda_pip_conflicts
        [(Conda, \<lparr>name = ''scipy'', pin = Some ''>=2'', which = Conda, platforms = None,
                   pprint = ''scipy >=2''\<rparr>),
         (Pip, \<lparr>name = ''scipy'', pin = Some ''<1'', which = Pip, platforms = None,
                 pprint = ''scipy <1''\<rparr>)]
     = ([(Conda, \<lparr>name = ''scipy'', pin = Some ''>=2'', which = Conda, platforms = None,
                    pprint = ''scipy >=2''\<rparr>),
         (Pip, \<lparr>name = ''scipy'', pin = Some ''<1'', which = Pip, platforms = None,
                 pprint = ''scipy <1''\<rparr>)],
        [PinningConflict (Some ''>=2'') (Some ''<1'')])"
proof -
  let ?c = "\<lparr>name = ''scipy'', pin = Some ''>=2'', which = Conda, platforms = None,
                     pprint = ''scipy >=2''\<rparr>"
  let ?p = "\<lparr>name = ''scipy'', pin = Some ''<1'', which = Pip, platforms = None,
                   pprint = ''scipy <1''\<rparr>"
  have h1: "map_of [(Conda, ?c), (Pip, ?p)] Conda = Some ?c" by simp
  have h2: "map_of [(Conda, ?c), (Pip, ?p)] Pip = Some ?p" by simp
  show ?thesis
    using h2 reconciler_equal_or_different_pins [OF h1 h2] by (simp add: truthy_def)
qed

text \<open>
  Claim C6 as stated fails where one of two different pins is the empty string: both
  pins are not null and differ, but only the Declaration with the other pin is kept.
\<close>

theorem empty_pin_dropped_beside_other_pin:
  "pin \<lparr>name = ''x'', pin = Some '''', which = Conda, platforms = None, pprint = ''x''\<rparr>
     \<noteq> None
   \<and> pin \<lparr>name = ''x'', pin = Some ''>=1'', which = Pip, platforms = None, pprint = ''x >=1''\<rparr>
     \<noteq> None
   \<and> resolve_conda_pip_conflicts
        [(Conda, \<lparr>name = ''x'', pin = Some '''', which = Conda, platforms = None, pprint = ''x''\<rparr>),
         (Pip, \<lparr>name = ''x'', pin = Some ''>=1'', which = Pip, platforms = None,
                 pprint = ''x >=1''\<rparr>)]
     = ([(Pip, \<lparr>name = ''x'', pin = Some ''>=1'', which = Pip, platforms = None,
                  pprint = ''x >=1''\<rparr>)], [])"
  by (simp add: resolve_conda_pip_conflicts_def truthy_def)

section \<open>The selector\<close>

lemma sort_reverse_set: "set (sort_reverse f xs) = set xs"
  by (simp add: sort_reverse_def)

lemma sort_reverse_length: "length (sort_reverse f xs) = length xs"
  by (simp add: sort_reverse_def)

lemma sorted_le_last: "sorted xs \<Longrightarrow> x \<in> set xs \<Longrightarrow> x \<le> last xs"
  by (induction xs) auto

lemma sort_reverse_hd_max:
  assumes "xs \<noteq> []" and "x \<in> set xs"
  shows "f x \<le> f (hd (sort_reverse f xs))"
proof -
  define ys where "ys = sort_key f (rev xs)"
  have ne: "ys \<noteq> []" using assms(1) by (auto simp: ys_def dest: arg_cong [where f = length])
  have srt: "sorted (map f ys)" by (simp add: ys_def)
  have "f x \<in> set (map f ys)" using assms(2) by (simp add: ys_def)
  then have "f x \<le> last (map f ys)" using srt by (simp add: sorted_le_last)
  then have "f x \<le> f (last ys)" using ne by (simp add: last_map)
  then show ?thesis by (simp add: sort_reverse_def ys_def hd_rev)
qed

lemma sort_reverse_single: "sort_reverse f [x] = [x]"
  by (simp add: sort_reverse_def)

lemma select_bucket_single: "select_bucket platform wh [m] = Inr (m, [])"
  by (simp add: select_bucket_def)

lemma select_bucket_many:
  assumes "1 < length metas"
  shows "select_bucket platform wh metas =
     Inr (hd (sort_reverse sort_key_of metas),
          if filter (\<lambda>m. m \<noteq> hd (sort_reverse sort_key_of metas)) (tl (sort_reverse sort_key_of metas)) \<noteq> []
          then [PlatformConflict platform (hd (sort_reverse sort_key_of metas)) wh
                  (filter (\<lambda>m. m \<noteq> hd (sort_reverse sort_key_of metas))
                     (tl (sort_reverse sort_key_of metas)))]
          else [])"
proof -
  have "length (sort_reverse sort_key_of metas) \<noteq> 0"
    using assms by (auto simp: sort_reverse_length)
  then obtain s rest where "sort_reverse sort_key_of metas = s # rest"
    by (cases "sort_reverse sort_key_of metas") auto
  then show ?thesis using assms by (auto simp: select_bucket_def Let_def)
qed

lemma sort_key_of_le:
  "sort_key_of m \<le> sort_key_of s \<longleftrightarrow> pin m \<le> pin s"
  by (cases "pin m"; cases "pin s") (auto simp: sort_key_of_def)

lemma select_bucket_takes_maximum:
  assumes "1 < length metas"
  shows "\<exists>sel ws. select_bucket platform wh metas = Inr (sel, ws)
           \<and> sel = hd (sort_reverse sort_key_of metas)
           \<and> sel \<in> set metas
           \<and> (\<forall>m\<in>set metas. sort_key_of m \<le> sort_key_of sel)
           \<and> ((\<exists>m\<in>set metas. pin m \<noteq> None) \<longrightarrow> pin sel \<noteq> None)
           \<and> (\<forall>m\<in>set metas. \<forall>s. pin m = Some s \<longrightarrow> (\<exists>t. pin sel = Some t \<and> s \<le> t))"
proof -
  define sel where "sel = hd (sort_reverse sort_key_of metas)"
  have ne: "metas \<noteq> []" using assms by auto
  then have "sort_reverse sort_key_of metas \<noteq> []"
    by (auto dest: arg_cong [where f = length] simp: sort_reverse_length)
  then have "sel \<in> set (sort_reverse sort_key_of metas)" unfolding sel_def by (rule hd_in_set)
  then have mem: "sel \<in> set metas" by (simp add: sort_reverse_set)
  have mx: "\<forall>m\<in>set metas. sort_key_of m \<le> sort_key_of sel"
    unfolding sel_def using sort_reverse_hd_max [OF ne] by blast
  then have pins: "\<forall>m\<in>set metas. pin m \<le> pin sel" by (simp add: sort_key_of_le)
  have some: "\<forall>m\<in>set metas. \<forall>s. pin m = Some s \<longrightarrow> (\<exists>t. pin sel = Some t \<and> s \<le> t)"
  proof (intro ballI allI impI)
    fix m s assume "m \<in> set metas" and ms: "pin m = Some s"
    then have "Some s \<le> pin sel" using pins by force
    then show "\<exists>t. pin sel = Some t \<and> s \<le> t" by (cases "pin sel") auto
  qed
  then have pinned: "(\<exists>m\<in>set metas. pin m \<noteq> None) \<longrightarrow> pin sel \<noteq> None" by fastforce
  obtain ws where "select_bucket platform wh metas = Inr (sel, ws)"
    using select_bucket_many [OF assms] sel_def by simp
  then show ?thesis using sel_def mem mx pinned some by blast
qed

section \<open>Buckets of two Declarations\<close>

lemma select_bucket_pair:
  assumes "sort_key_of b < sort_key_of a"
  shows "select_bucket platform wh [a, b] = Inr (a, [PlatformConflict platform a wh [b]])"
    and "select_bucket platform wh [b, a] = Inr (a, [PlatformConflict platform a wh [b]])"
proof -
  have ne: "b \<noteq> a" using assms by auto
  have le: "sort_key_of b \<le> sort_key_of a" "\<not> sort_key_of a \<le> sort_key_of b"
    using assms by auto
  have s1: "sort_reverse sort_key_of [a, b] = [a, b]"
    using le by (simp add: sort_reverse_def)
  have s2: "sort_reverse sort_key_of [b, a] = [a, b]"
    using le by (simp add: sort_reverse_def)
  show "select_bucket platform wh [a, b] = Inr (a, [PlatformConflict platform a wh [b]])"
    using ne s1 by (simp add: select_bucket_def)
  show "select_bucket platform wh [b, a] = Inr (a, [PlatformConflict platform a wh [b]])"
    using ne s2 by (simp add: select_bucket_def)
qed

section \<open>Running the selector again\<close>

lemma update_fresh: "k \<notin> fst ` set al \<Longrightarrow> AList.update k v al = al @ [(k, v)]"
  by (induction al) auto

lemma fold_update_distinct:
  "distinct (map fst (acc @ xs)) \<Longrightarrow> fold (\<lambda>(k, v). AList.update k v) xs acc = acc @ xs"
proof (induction xs arbitrary: acc)
  case Nil
  then show ?case by simp
next
  case (Cons x xs)
  obtain k v where x: "x = (k, v)" by (cases x)
  have fresh: "k \<notin> fst ` set acc" using Cons.prems x by auto
  have "distinct (map fst ((acc @ [(k, v)]) @ xs))" using Cons.prems x by simp
  then have "fold (\<lambda>(k, v). AList.update k v) xs (acc @ [(k, v)]) = (acc @ [(k, v)]) @ xs"
    by (rule Cons.IH)
  then show ?case using x fresh by (simp add: update_fresh)
qed

lemma set_update_subset: "set (AList.update k v al) \<subseteq> insert (k, v) (set al)"
  by (induction al) auto

lemma select_sources_singletons:
  "select_sources platform (map (\<lambda>(wh, m). (wh, [m])) srcs) acc
     = ([], Inr (fold (\<lambda>(wh, m). AList.update wh m) srcs acc))"
  by (induction srcs arbitrary: acc) (auto simp: select_bucket_single)

lemma select_sources_distinct:
  "select_sources platform packages acc = (ws, Inr r) \<Longrightarrow> distinct (map fst acc)
     \<Longrightarrow> distinct (map fst r)"
proof (induction packages arbitrary: acc ws)
  case Nil
  then show ?case by simp
next
  case (Cons x packages)
  obtain wh metas where x: "x = (wh, metas)" by (cases x)
  from Cons.prems(1) x obtain sel ws1 ws2 where
    "select_bucket platform wh metas = Inr (sel, ws1)"
    "select_sources platform packages (AList.update wh sel acc) = (ws2, Inr r)"
    by (auto split: sum.splits prod.splits)
  moreover have "distinct (map fst (AList.update wh sel acc))"
    using Cons.prems(2) by (simp add: distinct_update)
  ultimately show ?case using Cons.IH by blast
qed

lemma select_platforms_singletons:
  assumes "\<forall>(platform, srcs)\<in>set red. distinct (map fst srcs)"
  shows "select_platforms (singleton_buckets red) acc
     = ([], Inr (fold (\<lambda>(platform, srcs). AList.update platform srcs) red acc))"
  using assms
proof (induction red arbitrary: acc)
  case Nil
  then show ?case by (simp add: singleton_buckets_def)
next
  case (Cons x red)
  obtain platform srcs where x: "x = (platform, srcs)" by (cases x)
  have d: "distinct (map fst ([] @ srcs))" using Cons.prems x by simp
  have "select_sources platform (map (\<lambda>(wh, m). (wh, [m])) srcs) [] = ([], Inr srcs)"
    using fold_update_distinct [OF d] by (simp add: select_sources_singletons)
  moreover have "select_platforms (singleton_buckets red) (AList.update platform srcs acc)
     = ([], Inr (fold (\<lambda>(platform, srcs). AList.update platform srcs) red
                   (AList.update platform srcs acc)))"
    using Cons.IH Cons.prems by simp
  ultimately show ?case using x by (simp add: singleton_buckets_def)
qed

lemma select_platforms_distinct:
  "select_platforms data acc = (ws, Inr r) \<Longrightarrow> distinct (map fst acc)
     \<Longrightarrow> \<forall>(platform, srcs)\<in>set acc. distinct (map fst srcs)
     \<Longrightarrow> distinct (map fst r) \<and> (\<forall>(platform, srcs)\<in>set r. distinct (map fst srcs))"
proof (induction data arbitrary: acc ws)
  case Nil
  then show ?case by simp
next
  case (Cons x data)
  obtain platform packages where x: "x = (platform, packages)" by (cases x)
  from Cons.prems(1) x obtain srcs ws1 ws2 where
    s: "select_sources platform packages [] = (ws1, Inr srcs)"
    and rest: "select_platforms data (AList.update platform srcs acc) = (ws2, Inr r)"
    by (auto split: sum.splits prod.splits)
  have ds: "distinct (map fst srcs)" using select_sources_distinct [OF s] by simp
  have d1: "distinct (map fst (AList.update platform srcs acc))"
    using Cons.prems(2) by (simp add: distinct_update)
  have d2: "\<forall>(platform, srcs)\<in>set (AList.update platform srcs acc). distinct (map fst srcs)"
    using set_update_subset [of platform srcs acc] Cons.prems(3) ds by auto
  show ?case using Cons.IH [OF rest d1 d2] .
qed

lemma selector_rerun:
  assumes "select_preferred_version_within_platform data = (ws, Inr red)"
  shows "select_preferred_version_within_platform (singleton_buckets red) = ([], Inr red)"
proof -
  have sp: "select_platforms data [] = (ws, Inr red)"
    using assms by (simp add: select_preferred_version_within_platform_def)
  have d: "distinct (map fst red) \<and> (\<forall>(platform, srcs)\<in>set red. distinct (map fst srcs))"
    using select_platforms_distinct [OF sp] by simp
  then have "distinct (map fst ([] @ red))" by simp
  then have "fold (\<lambda>(platform, srcs). AList.update platform srcs) red [] = red"
    using fold_update_distinct [of "[]" red] by simp
  then show ?thesis
    using d select_platforms_singletons [of red "[]"]
    by (simp add: select_preferred_version_within_platform_def)
qed

text \<open>
  Claim C9.  A bucket of exactly one Declaration passes through unchanged and without a
  warning; so does the Declaration selected from any bucket when it is put into a bucket
  of its own; and running the selector again on its own output, every selected
  Declaration in a list of its own, returns that output and no warning.
\<close>

theorem selector_idempotent:
  "select_bucket platform wh [m] = Inr (m, [])
   \<and> (select_bucket platform wh metas = Inr (sel, ws)
        \<longrightarrow> select_bucket platform wh [sel] = Inr (sel, []))
   \<and> (select_preferred_version_within_platform data = (ws', Inr red)
        \<longrightarrow> select_preferred_version_within_platform (singleton_buckets red) = ([], Inr red))"
  using select_bucket_single selector_rerun by blast

text \<open>
  The theorem on one bucket of two Declarations: the first run discards one with a
  warning, the second run changes nothing.
\<close>

theorem selector_idempotent_witness:
  "select_preferred_version_within_platform
     [(None, [(Pip, [\<lparr>name = ''numpy'', pin = None, which = Pip, platforms = None,
                        pprint = ''numpy''\<rparr>,
                     \<lparr>name = ''numpy'', pin = Some ''>=1'', which = Pip, platforms = None,
                        pprint = ''numpy >=1''\<rparr>])])]
    = ([PlatformConflict None
          \<lparr>name = ''numpy'', pin = Some ''>=1'', which = Pip, platforms = None,
             pprint = ''numpy >=1''\<rparr>
          Pip
          [\<lparr>name = ''numpy'', pin = None, which = Pip, platforms = None, pprint = ''numpy''\<rparr>]],
       Inr [(None, [(Pip, \<lparr>name = ''numpy'', pin = Some ''>=1'', which = Pip, platforms = None,
                             pprint = ''numpy >=1''\<rparr>)])])
   \<and> select_preferred_version_within_platform
       (singleton_buckets
          [(None, [(Pip, \<lparr>name = ''numpy'', pin = Some ''>=1'', which = Pip, platforms = None,
                            pprint = ''numpy >=1''\<rparr>)])])
    = ([], Inr [(None, [(Pip, \<lparr>name = ''numpy'', pin = Some ''>=1'', which = Pip,
                                 platforms = None, pprint = ''numpy >=1''\<rparr>)])])"
proof -
  let ?a = "\<lparr>name = ''numpy'', pin = None, which = Pip, platforms = None, pprint = ''numpy''\<rparr>"
  let ?b = "\<lparr>name = ''numpy'', pin = Some ''>=1'', which = Pip, platforms = None,
                        pprint = ''numpy >=1''\<rparr>"
  have lt: "sort_key_of ?a < sort_key_of ?b" by (simp add: sort_key_of_def)
  have h: "select_preferred_version_within_platform [(None, [(Pip, [?a, ?b])])]
      = ([PlatformConflict None ?b Pip [?a]], Inr [(None, [(Pip, ?b)])])"
    using select_bucket_pair(2) [OF lt, of None Pip]
    by (simp add: select_preferred_version_within_platform_def)
  from selector_idempotent [of _ _ _ _ _ _ "[(None, [(Pip, [?a, ?b])])]"
         "[PlatformConflict None ?b Pip [?a]]" "[(None, [(Pip, ?b)])]"] h
  show ?thesis by blast
qed

section \<open>The buckets of the grouper\<close>

lemma bucket_of_empty: "bucket_of [] platform wh = []"
  by (simp add: bucket_of_def get_default_def)

lemma bucket_of_group_append:
  "bucket_of (group_append p m g) platform wh
     = (if platform = p \<and> wh = which m then bucket_of g platform wh @ [m]
        else bucket_of g platform wh)"
  by (simp add: bucket_of_def group_append_def get_default_def Let_def update_conv'
      split: option.splits)

lemma bucket_of_fold_platforms:
  "bucket_of (fold (\<lambda>p. group_append p m) ps g) platform wh
     = bucket_of g platform wh @ [m. p \<leftarrow> ps, p = platform \<and> which m = wh]"
  by (induction ps arbitrary: g) (auto simp: bucket_of_group_append)

lemma bucket_of_fold_metas:
  "bucket_of (fold (\<lambda>meta g. fold (\<lambda>p. group_append p meta) (platforms_or_null meta) g)
                meta_list g) platform wh
     = bucket_of g platform wh
       @ [m. m \<leftarrow> meta_list, p \<leftarrow> platforms_or_null m, p = platform \<and> which m = wh]"
  by (induction meta_list arbitrary: g) (simp_all add: bucket_of_fold_platforms)

lemma bucket_of_group_metas:
  "bucket_of (group_metas meta_list) platform wh
     = [m. m \<leftarrow> meta_list, p \<leftarrow> platforms_or_null m, p = platform \<and> which m = wh]"
  using bucket_of_fold_metas [of meta_list "[]" platform wh]
  by (simp add: group_metas_def bucket_of_empty)

lemma in_bucket_iff:
  "m \<in> set (bucket_of (group_metas meta_list) platform wh)
     \<longleftrightarrow> m \<in> set meta_list \<and> platform \<in> set (platforms_or_null m) \<and> which m = wh"
  by (auto simp: bucket_of_group_metas)

lemma prepare_fold_lookup:
  assumes "distinct (map fst requirements)"
  shows "map_of (fold (\<lambda>(package, meta_list) prepared_data.
                   AList.update package (group_metas meta_list) prepared_data)
                 requirements acc) package
     = (case map_of requirements package of
          None \<Rightarrow> map_of acc package
        | Some meta_list \<Rightarrow> Some (group_metas meta_list))"
  using assms
proof (induction requirements arbitrary: acc)
  case Nil
  then show ?case by simp
next
  case (Cons x requirements)
  obtain k v where x: "x = (k, v)" by (cases x)
  have d: "distinct (map fst requirements)" and fresh: "k \<notin> fst ` set requirements"
    using Cons.prems x by auto
  have none: "map_of requirements k = None" using fresh by (simp add: map_of_eq_None_iff)
  show ?case
    using Cons.IH [OF d, of "AList.update k (group_metas v) acc"] x none
    by (auto simp: update_conv' split: option.splits)
qed

lemma prepare_lookup:
  assumes "distinct (map fst requirements)"
  shows "map_of (prepare_metas_for_conflict_resolution requirements) package
     = map_option group_metas (map_of requirements package)"
  using prepare_fold_lookup [OF assms, of "[]" package]
  by (simp add: prepare_metas_for_conflict_resolution_def split: option.splits)

text \<open>
  Claim C7, amended.  For a mapping with distinct package names the grouper stores, for each
  package, the grouping of its list.  The bucket at \<open>(platform, ecosystem)\<close> holds, in
  input order and without deduplication, one copy of each Declaration of that ecosystem
  for each occurrence of the platform among its applicable platforms, where a null
  platform set stands for the list \<open>[null]\<close>.  So a Declaration with a null platform
  set is in the null bucket of its ecosystem and in no other, and a Declaration with the
  platform set \<open>ps\<close> is in the buckets of its ecosystem at the platforms of \<open>ps\<close> and in
  no other.  Every Declaration is in a bucket, but for one whose platform set is not null
  and has no element: the loop over its platforms has nothing to run through.
\<close>

theorem grouper_buckets:
  assumes "distinct (map fst requirements)"
    and "map_of requirements package = Some meta_list"
  shows "map_of (prepare_metas_for_conflict_resolution requirements) package
           = Some (group_metas meta_list)
       \<and> (\<forall>platform wh.
             bucket_of (group_metas meta_list) platform wh
               = [m. m \<leftarrow> meta_list, p \<leftarrow> platforms_or_null m, p = platform \<and> which m = wh])
       \<and> (\<forall>m\<in>set meta_list. \<forall>platform wh.
             platforms m = None \<longrightarrow>
               (m \<in> set (bucket_of (group_metas meta_list) platform wh)
                  \<longleftrightarrow> platform = None \<and> wh = which m))
       \<and> (\<forall>m\<in>set meta_list. \<forall>platform wh ps.
             platforms m = Some ps \<longrightarrow>
               (m \<in> set (bucket_of (group_metas meta_list) platform wh)
                  \<longleftrightarrow> platform \<in> Some ` set ps \<and> wh = which m))
       \<and> (\<forall>m\<in>set meta_list.
             platforms m \<noteq> Some [] \<longrightarrow>
               (\<exists>platform. m \<in> set (bucket_of (group_metas meta_list) platform (which m))))"
proof -
  have a: "map_of (prepare_metas_for_conflict_resolution requirements) package
           = Some (group_metas meta_list)"
    using prepare_lookup [OF assms(1), of package] assms(2) by simp
  have b: "\<forall>platform wh.
             bucket_of (group_metas meta_list) platform wh
               = [m. m \<leftarrow> meta_list, p \<leftarrow> platforms_or_null m, p = platform \<and> which m = wh]"
    by (simp add: bucket_of_group_metas)
  have c: "\<forall>m\<in>set meta_list. \<forall>platform wh.
             platforms m = None \<longrightarrow>
               (m \<in> set (bucket_of (group_metas meta_list) platform wh)
                  \<longleftrightarrow> platform = None \<and> wh = which m)"
    by (auto simp: in_bucket_iff platforms_or_null_def)
  have d: "\<forall>m\<in>set meta_list. \<forall>platform wh ps.
             platforms m = Some ps \<longrightarrow>
               (m \<in> set (bucket_of (group_metas meta_list) platform wh)
                  \<longleftrightarrow> platform \<in> Some ` set ps \<and> wh = which m)"
    by (auto simp: in_bucket_iff platforms_or_null_def)
  have e: "\<forall>m\<in>set meta_list.
             platforms m \<noteq> Some [] \<longrightarrow>
               (\<exists>platform. m \<in> set (bucket_of (group_metas meta_list) platform (which m)))"
  proof (intro ballI impI)
    fix m assume m: "m \<in> set meta_list" and ne: "platforms m \<noteq> Some []"
    have "platforms_or_null m \<noteq> []"
      using ne by (cases "platforms m") (auto simp: platforms_or_null_def)
    then obtain platform where "platform \<in> set (platforms_or_null m)"
      by (cases "platforms_or_null m") auto
    then have "m \<in> set (bucket_of (group_metas meta_list) platform (which m))"
      using m by (simp add: in_bucket_iff)
    then show "\<exists>platform. m \<in> set (bucket_of (group_metas meta_list) platform (which m))"
      by blast
  qed
  show ?thesis using a b c d e by blast
qed

text \<open>
  The theorem on three Declarations, one with two platforms, one with one of these two,
  one with a null platform set.
\<close>

theorem grouper_buckets_witness:
  "distinct (map fst
      [(''numpy'',
        [\<lparr>name = ''numpy'', pin = None, which = Pip,
            platforms = Some [''linux-64'', ''osx-64''], pprint = ''numpy''\<rparr>,
         \<lparr>name = ''numpy'', pin = Some ''>=1'', which = Pip, platforms = Some [''osx-64''],
            pprint = ''numpy >=1''\<rparr>,
         \<lparr>name = ''numpy'', pin = None, which = Conda, platforms = None,
            pprint = ''numpy''\<rparr>])])
   \<and> prepare_metas_for_conflict_resolution
      [(''numpy'',
        [\<lparr>name = ''numpy'', pin = None, which = Pip,
            platforms = Some [''linux-64'', ''osx-64''], pprint = ''numpy''\<rparr>,
         \<lparr>name = ''numpy'', pin = Some ''>=1'', which = Pip, platforms = Some [''osx-64''],
            pprint = ''numpy >=1''\<rparr>,
         \<lparr>name = ''numpy'', pin = None, which = Conda, platforms = None,
            pprint = ''numpy''\<rparr>])]
     = [(''numpy'',
         [(Some ''linux-64'',
           [(Pip, [\<lparr>name = ''numpy'', pin = None, which = Pip,
                      platforms = Some [''linux-64'', ''osx-64''], pprint = ''numpy''\<rparr>])]),
          (Some ''osx-64'',
           [(Pip, [\<lparr>name = ''numpy'', pin = None, which = Pip,
                      platforms = Some [''linux-64'', ''osx-64''], pprint = ''numpy''\<rparr>,
                   \<lparr>name = ''numpy'', pin = Some ''>=1'', which = Pip,
                      platforms = Some [''osx-64''], pprint = ''numpy >=1''\<rparr>])]),
          (None,
           [(Conda, [\<lparr>name = ''numpy'', pin = None, which = Conda, platforms = None,
                        pprint = ''numpy''\<rparr>])])])]
   \<and> bucket_of
       (group_metas
        [\<lparr>name = ''numpy'', pin = None, which = Pip,
            platforms = Some [''linux-64'', ''osx-64''], pprint = ''numpy''\<rparr>,
         \<lparr>name = ''numpy'', pin = Some ''>=1'', which = Pip, platforms = Some [''osx-64''],
            pprint = ''numpy >=1''\<rparr>,
         \<lparr>name = ''numpy'', pin = None, which = Conda, platforms = None,
            pprint = ''numpy''\<rparr>]) (Some ''osx-64'') Pip
     = [\<lparr>name = ''numpy'', pin = None, which = Pip,
           platforms = Some [''linux-64'', ''osx-64''], pprint = ''numpy''\<rparr>,
        \<lparr>name = ''numpy'', pin = Some ''>=1'', which = Pip, platforms = Some [''osx-64''],
           pprint = ''numpy >=1''\<rparr>]"
proof -
  let ?a = "\<lparr>name = ''numpy'', pin = None, which = Pip,
            platforms = Some [''linux-64'', ''osx-64''], pprint = ''numpy''\<rparr>"
  let ?b = "\<lparr>name = ''numpy'', pin = Some ''>=1'', which = Pip, platforms = Some [''osx-64''],
            pprint = ''numpy >=1''\<rparr>"
  let ?c = "\<lparr>name = ''numpy'', pin = None, which = Conda, platforms = None,
            pprint = ''numpy''\<rparr>"
  have h1: "distinct (map fst [(''numpy'', [?a, ?b, ?c])])" by simp
  have h2: "map_of [(''numpy'', [?a, ?b, ?c])] ''numpy'' = Some [?a, ?b, ?c]" by simp
  have e: "prepare_metas_for_conflict_resolution [(''numpy'', [?a, ?b, ?c])]
     = [(''numpy'',
         [(Some ''linux-64'', [(Pip, [?a])]),
          (Some ''osx-64'', [(Pip, [?a, ?b])]),
          (None, [(Conda, [?c])])])]"
    by (simp add: prepare_metas_for_conflict_resolution_def group_metas_def group_append_def
        platforms_or_null_def get_default_def)
  have "bucket_of (group_metas [?a, ?b, ?c]) (Some ''osx-64'') Pip
      = [m. m \<leftarrow> [?a, ?b, ?c], p \<leftarrow> platforms_or_null m, p = Some ''osx-64'' \<and> which m = Pip]"
    by (rule grouper_buckets [OF h1 h2, THEN conjunct2, THEN conjunct1, rule_format])
  then have "bucket_of (group_metas [?a, ?b, ?c]) (Some ''osx-64'') Pip = [?a, ?b]"
    by (simp add: platforms_or_null_def)
  then show ?thesis using h1 e by simp
qed

text \<open>
  Claim C7 as stated fails for a Declaration whose platform set is not null and has no
  element: the loop over its platforms never runs, the Declaration is in no bucket, and
  the package is left without any platform.
\<close>

theorem declaration_without_platform_in_no_bucket:
  "prepare_metas_for_conflict_resolution
     [(''x'', [\<lparr>name = ''x'', pin = None, which = Pip, platforms = Some [], pprint = ''x''\<rparr>])]
     = [(''x'', [])]
   \<and> resolve_conflicts
     [(''x'', [\<lparr>name = ''x'', pin = None, which = Pip, platforms = Some [], pprint = ''x''\<rparr>])]
     = ([], Inr [(''x'', [])])"
  by (simp add: resolve_conflicts_def prepare_metas_for_conflict_resolution_def group_metas_def
      platforms_or_null_def select_preferred_version_within_platform_def reconcile_platforms_def)

section \<open>The selector on the buckets of the grouper\<close>

lemma well_grouped_empty: "well_grouped []"
  by (simp add: well_grouped_def)

lemma well_grouped_inner:
  assumes "well_grouped g"
  shows "distinct (map fst (get_default g p []))"
    and "\<forall>(wh, metas)\<in>set (get_default g p []). metas \<noteq> []"
proof -
  show "distinct (map fst (get_default g p []))"
  proof (cases "map_of g p")
    case None
    then show ?thesis by (simp add: get_default_def)
  next
    case (Some d)
    then have "(p, d) \<in> set g" by (rule map_of_SomeD)
    then show ?thesis using assms Some by (auto simp: well_grouped_def get_default_def)
  qed
  show "\<forall>(wh, metas)\<in>set (get_default g p []). metas \<noteq> []"
  proof (cases "map_of g p")
    case None
    then show ?thesis by (simp add: get_default_def)
  next
    case (Some d)
    then have "(p, d) \<in> set g" by (rule map_of_SomeD)
    then show ?thesis using assms Some by (auto simp: well_grouped_def get_default_def)
  qed
qed

lemma well_grouped_append:
  assumes "well_grouped g"
  shows "well_grouped (group_append p m g)"
proof -
  define inner where "inner = get_default g p []"
  define new where "new = AList.update (which m) (get_default inner (which m) [] @ [m]) inner"
  have ga: "group_append p m g = AList.update p new g"
    by (simp add: group_append_def Let_def inner_def new_def)
  have di: "distinct (map fst inner)" and ni: "\<forall>(wh, metas)\<in>set inner. metas \<noteq> []"
    unfolding inner_def using well_grouped_inner [OF assms] by blast+
  have dn: "distinct (map fst new)" unfolding new_def using di by (simp add: distinct_update)
  have nn: "\<forall>(wh, metas)\<in>set new. metas \<noteq> []"
    using set_update_subset [of "which m" "get_default inner (which m) [] @ [m]" inner] ni
    unfolding new_def by auto
  have d: "distinct (map fst (AList.update p new g))"
    using assms by (simp add: well_grouped_def distinct_update)
  have old: "distinct (map fst s) \<and> (\<forall>(wh, metas)\<in>set s. metas \<noteq> [])"
    if "(pf, s) \<in> set g" for pf s
    using assms that unfolding well_grouped_def by blast
  have "\<forall>(platform, srcs)\<in>set (AList.update p new g).
          distinct (map fst srcs) \<and> (\<forall>(wh, metas)\<in>set srcs. metas \<noteq> [])"
  proof (intro ballI)
    fix x assume "x \<in> set (AList.update p new g)"
    then have "x = (p, new) \<or> x \<in> set g" using set_update_subset [of p new g] by blast
    then show "case x of (platform, srcs) \<Rightarrow>
          distinct (map fst srcs) \<and> (\<forall>(wh, metas)\<in>set srcs. metas \<noteq> [])"
    proof
      assume "x = (p, new)"
      then show ?thesis using dn nn by simp
    next
      assume "x \<in> set g"
      then show ?thesis using old [of "fst x" "snd x"] by (simp add: case_prod_beta)
    qed
  qed
  then show ?thesis unfolding ga well_grouped_def using d by blast
qed

lemma well_grouped_fold_platforms:
  "well_grouped g \<Longrightarrow> well_grouped (fold (\<lambda>p. group_append p m) ps g)"
  by (induction ps arbitrary: g) (simp_all add: well_grouped_append)

lemma well_grouped_group_metas: "well_grouped (group_metas meta_list)"
proof -
  have "well_grouped g \<Longrightarrow>
        well_grouped (fold (\<lambda>meta g. fold (\<lambda>p. group_append p meta) (platforms_or_null meta) g)
                        meta_list g)" for g
    by (induction meta_list arbitrary: g) (simp_all add: well_grouped_fold_platforms)
  then show ?thesis by (simp add: group_metas_def well_grouped_empty)
qed


lemma select_bucket_nonempty:
  assumes "metas \<noteq> []"
  shows "\<exists>sel ws. select_bucket platform wh metas = Inr (sel, ws)"
proof (cases "1 < length metas")
  case True
  then show ?thesis using select_bucket_many by blast
next
  case False
  then obtain m where "metas = [m]" using assms by (cases metas) auto
  then show ?thesis by (simp add: select_bucket_single)
qed

lemma select_sources_ok:
  assumes "\<forall>(wh, metas)\<in>set packages. metas \<noteq> []" and "distinct (map fst packages)"
  shows "\<exists>ws r. select_sources platform packages acc = (ws, Inr r)
           \<and> (\<forall>wh metas sel bws. (wh, metas) \<in> set packages
                 \<longrightarrow> select_bucket platform wh metas = Inr (sel, bws)
                 \<longrightarrow> map_of r wh = Some sel \<and> set bws \<subseteq> set ws)
           \<and> (\<forall>wh. wh \<notin> fst ` set packages \<longrightarrow> map_of r wh = map_of acc wh)"
  using assms
proof (induction packages arbitrary: acc)
  case Nil
  then show ?case by simp
next
  case (Cons x packages)
  obtain wh0 metas0 where x: "x = (wh0, metas0)" by (cases x)
  have ne: "metas0 \<noteq> []" using Cons.prems(1) x by simp
  then obtain sel0 ws0 where sb: "select_bucket platform wh0 metas0 = Inr (sel0, ws0)"
    using select_bucket_nonempty by blast
  have rest1: "\<forall>(wh, metas)\<in>set packages. metas \<noteq> []" using Cons.prems(1) by simp
  have rest2: "distinct (map fst packages)" and fresh: "wh0 \<notin> fst ` set packages"
    using Cons.prems(2) x by auto
  from Cons.IH [OF rest1 rest2, of "AList.update wh0 sel0 acc"] obtain ws' r where
    run: "select_sources platform packages (AList.update wh0 sel0 acc) = (ws', Inr r)"
    and found: "\<forall>wh metas sel bws. (wh, metas) \<in> set packages
                 \<longrightarrow> select_bucket platform wh metas = Inr (sel, bws)
                 \<longrightarrow> map_of r wh = Some sel \<and> set bws \<subseteq> set ws'"
    and other: "\<forall>wh. wh \<notin> fst ` set packages
                 \<longrightarrow> map_of r wh = map_of (AList.update wh0 sel0 acc) wh"
    by blast
  have eq: "select_sources platform (x # packages) acc = (ws0 @ ws', Inr r)"
    using x sb run by simp
  have here: "map_of r wh0 = Some sel0" using other fresh by (simp add: update_conv')
  have a: "\<forall>wh metas sel bws. (wh, metas) \<in> set (x # packages)
                 \<longrightarrow> select_bucket platform wh metas = Inr (sel, bws)
                 \<longrightarrow> map_of r wh = Some sel \<and> set bws \<subseteq> set (ws0 @ ws')"
  proof (intro allI impI)
    fix wh metas sel bws
    assume mem: "(wh, metas) \<in> set (x # packages)"
      and s: "select_bucket platform wh metas = Inr (sel, bws)"
    show "map_of r wh = Some sel \<and> set bws \<subseteq> set (ws0 @ ws')"
    proof (cases "(wh, metas) = x")
      case True
      then show ?thesis using x sb s here by auto
    next
      case False
      then have "(wh, metas) \<in> set packages" using mem by simp
      then show ?thesis using found s by fastforce
    qed
  qed
  have b: "\<forall>wh. wh \<notin> fst ` set (x # packages) \<longrightarrow> map_of r wh = map_of acc wh"
    using other x by (auto simp: update_conv')
  show ?case using eq a b by blast
qed

lemma well_grouped_Cons:
  assumes "well_grouped ((platform, packages) # data)"
  shows "well_grouped data" and "platform \<notin> fst ` set data"
    and "distinct (map fst packages)" and "\<forall>(wh, metas)\<in>set packages. metas \<noteq> []"
  using assms by (auto simp: well_grouped_def)

lemma select_platforms_ok:
  assumes "well_grouped data"
  shows "\<exists>ws red. select_platforms data acc = (ws, Inr red)
           \<and> (\<forall>platform packages wh metas sel bws.
                 (platform, packages) \<in> set data \<longrightarrow> (wh, metas) \<in> set packages
                 \<longrightarrow> select_bucket platform wh metas = Inr (sel, bws)
                 \<longrightarrow> slot red platform wh = Some sel \<and> set bws \<subseteq> set ws)
           \<and> (\<forall>platform. platform \<notin> fst ` set data \<longrightarrow> map_of red platform = map_of acc platform)"
  using assms
proof (induction data arbitrary: acc)
  case Nil
  then show ?case by simp
next
  case (Cons x data)
  obtain pf0 packages0 where x: "x = (pf0, packages0)" by (cases x)
  have wg: "well_grouped data" and fresh: "pf0 \<notin> fst ` set data"
    and dp: "distinct (map fst packages0)" and np: "\<forall>(wh, metas)\<in>set packages0. metas \<noteq> []"
    using well_grouped_Cons [of pf0 packages0 data] Cons.prems x by blast+
  from select_sources_ok [OF np dp, of pf0 "[]"] obtain ws0 srcs where
    run0: "select_sources pf0 packages0 [] = (ws0, Inr srcs)"
    and found0: "\<forall>wh metas sel bws. (wh, metas) \<in> set packages0
                 \<longrightarrow> select_bucket pf0 wh metas = Inr (sel, bws)
                 \<longrightarrow> map_of srcs wh = Some sel \<and> set bws \<subseteq> set ws0"
    by blast
  from Cons.IH [OF wg, of "AList.update pf0 srcs acc"] obtain ws' red where
    run: "select_platforms data (AList.update pf0 srcs acc) = (ws', Inr red)"
    and found: "\<forall>platform packages wh metas sel bws.
                 (platform, packages) \<in> set data \<longrightarrow> (wh, metas) \<in> set packages
                 \<longrightarrow> select_bucket platform wh metas = Inr (sel, bws)
                 \<longrightarrow> slot red platform wh = Some sel \<and> set bws \<subseteq> set ws'"
    and other: "\<forall>platform. platform \<notin> fst ` set data
                 \<longrightarrow> map_of red platform = map_of (AList.update pf0 srcs acc) platform"
    by blast
  have eq: "select_platforms (x # data) acc = (ws0 @ ws', Inr red)"
    using x run0 run by simp
  have here: "map_of red pf0 = Some srcs" using other fresh by (simp add: update_conv')
  have a: "\<forall>platform packages wh metas sel bws.
                 (platform, packages) \<in> set (x # data) \<longrightarrow> (wh, metas) \<in> set packages
                 \<longrightarrow> select_bucket platform wh metas = Inr (sel, bws)
                 \<longrightarrow> slot red platform wh = Some sel \<and> set bws \<subseteq> set (ws0 @ ws')"
  proof (intro allI impI)
    fix platform packages wh metas sel bws
    assume mem: "(platform, packages) \<in> set (x # data)" and mem2: "(wh, metas) \<in> set packages"
      and s: "select_bucket platform wh metas = Inr (sel, bws)"
    show "slot red platform wh = Some sel \<and> set bws \<subseteq> set (ws0 @ ws')"
    proof (cases "(platform, packages) = x")
      case True
      then have "map_of srcs wh = Some sel \<and> set bws \<subseteq> set ws0"
        using found0 mem2 s x by blast
      then show ?thesis using True x here by (auto simp: slot_def)
    next
      case False
      then have "(platform, packages) \<in> set data" using mem by simp
      then have "slot red platform wh = Some sel \<and> set bws \<subseteq> set ws'"
        using found mem2 s by blast
      then show ?thesis by auto
    qed
  qed
  have b: "\<forall>platform. platform \<notin> fst ` set (x # data)
             \<longrightarrow> map_of red platform = map_of acc platform"
    using other x by (auto simp: update_conv')
  show ?case using eq a b by blast
qed

lemma select_packages_ok:
  assumes "distinct (map fst prepared)" and "\<forall>(pkg, data)\<in>set prepared. well_grouped data"
  shows "\<exists>ws resolved. select_packages prepared acc = (ws, Inr resolved)
           \<and> (\<forall>pkg data platform packages wh metas sel bws.
                 (pkg, data) \<in> set prepared \<longrightarrow> (platform, packages) \<in> set data
                 \<longrightarrow> (wh, metas) \<in> set packages
                 \<longrightarrow> select_bucket platform wh metas = Inr (sel, bws)
                 \<longrightarrow> output_slot resolved pkg platform wh = Some sel \<and> set bws \<subseteq> set ws)
           \<and> (\<forall>pkg. pkg \<notin> fst ` set prepared \<longrightarrow> map_of resolved pkg = map_of acc pkg)"
  using assms
proof (induction prepared arbitrary: acc)
  case Nil
  then show ?case by simp
next
  case (Cons x prepared)
  obtain pkg0 data0 where x: "x = (pkg0, data0)" by (cases x)
  have d: "distinct (map fst prepared)" and fresh: "pkg0 \<notin> fst ` set prepared"
    using Cons.prems(1) x by auto
  have wg0: "well_grouped data0" and wgs: "\<forall>(pkg, data)\<in>set prepared. well_grouped data"
    using Cons.prems(2) x by auto
  from select_platforms_ok [OF wg0, of "[]"] obtain ws0 red0 where
    run0: "select_platforms data0 [] = (ws0, Inr red0)"
    and found0: "\<forall>platform packages wh metas sel bws.
                 (platform, packages) \<in> set data0 \<longrightarrow> (wh, metas) \<in> set packages
                 \<longrightarrow> select_bucket platform wh metas = Inr (sel, bws)
                 \<longrightarrow> slot red0 platform wh = Some sel \<and> set bws \<subseteq> set ws0"
    by blast
  from Cons.IH [OF d wgs, of "AList.update pkg0 red0 acc"] obtain ws' resolved where
    run: "select_packages prepared (AList.update pkg0 red0 acc) = (ws', Inr resolved)"
    and found: "\<forall>pkg data platform packages wh metas sel bws.
                 (pkg, data) \<in> set prepared \<longrightarrow> (platform, packages) \<in> set data
                 \<longrightarrow> (wh, metas) \<in> set packages
                 \<longrightarrow> select_bucket platform wh metas = Inr (sel, bws)
                 \<longrightarrow> output_slot resolved pkg platform wh = Some sel \<and> set bws \<subseteq> set ws'"
    and other: "\<forall>pkg. pkg \<notin> fst ` set prepared
                 \<longrightarrow> map_of resolved pkg = map_of (AList.update pkg0 red0 acc) pkg"
    by blast
  have eq: "select_packages (x # prepared) acc = (ws0 @ ws', Inr resolved)"
    using x run0 run by (simp add: select_preferred_version_within_platform_def)
  have here: "map_of resolved pkg0 = Some red0" using other fresh by (simp add: update_conv')
  have a: "\<forall>pkg data platform packages wh metas sel bws.
                 (pkg, data) \<in> set (x # prepared) \<longrightarrow> (platform, packages) \<in> set data
                 \<longrightarrow> (wh, metas) \<in> set packages
                 \<longrightarrow> select_bucket platform wh metas = Inr (sel, bws)
                 \<longrightarrow> output_slot resolved pkg platform wh = Some sel
                     \<and> set bws \<subseteq> set (ws0 @ ws')"
  proof (intro allI impI)
    fix pkg data platform packages wh metas sel bws
    assume mem: "(pkg, data) \<in> set (x # prepared)"
      and mem1: "(platform, packages) \<in> set data" and mem2: "(wh, metas) \<in> set packages"
      and s: "select_bucket platform wh metas = Inr (sel, bws)"
    show "output_slot resolved pkg platform wh = Some sel \<and> set bws \<subseteq> set (ws0 @ ws')"
    proof (cases "(pkg, data) = x")
      case True
      then have "slot red0 platform wh = Some sel \<and> set bws \<subseteq> set ws0"
        using found0 mem1 mem2 s x by blast
      then show ?thesis using True x here by (auto simp: output_slot_def)
    next
      case False
      then have "(pkg, data) \<in> set prepared" using mem by simp
      then have "output_slot resolved pkg platform wh = Some sel \<and> set bws \<subseteq> set ws'"
        using found mem1 mem2 s by blast
      then show ?thesis by auto
    qed
  qed
  have b: "\<forall>pkg. pkg \<notin> fst ` set (x # prepared) \<longrightarrow> map_of resolved pkg = map_of acc pkg"
    using other x by (auto simp: update_conv')
  show ?case using eq a b by blast
qed

lemma prepare_fold_invariant:
  assumes "distinct (map fst acc)" and "\<forall>(pkg, data)\<in>set acc. well_grouped data"
  shows "distinct (map fst (fold (\<lambda>(package, meta_list) prepared_data.
                   AList.update package (group_metas meta_list) prepared_data)
                 requirements acc))
       \<and> (\<forall>(pkg, data)\<in>set (fold (\<lambda>(package, meta_list) prepared_data.
                   AList.update package (group_metas meta_list) prepared_data)
                 requirements acc). well_grouped data)"
  using assms
proof (induction requirements arbitrary: acc)
  case Nil
  then show ?case by simp
next
  case (Cons x requirements)
  obtain k v where x: "x = (k, v)" by (cases x)
  have d: "distinct (map fst (AList.update k (group_metas v) acc))"
    using Cons.prems(1) by (simp add: distinct_update)
  have w: "\<forall>(pkg, data)\<in>set (AList.update k (group_metas v) acc). well_grouped data"
  proof (intro ballI)
    fix y assume "y \<in> set (AList.update k (group_metas v) acc)"
    then have "y = (k, group_metas v) \<or> y \<in> set acc"
      using set_update_subset [of k "group_metas v" acc] by blast
    then show "case y of (pkg, data) \<Rightarrow> well_grouped data"
      using Cons.prems(2) well_grouped_group_metas by auto
  qed
  show ?case using Cons.IH [OF d w] x by simp
qed

lemma prepare_well_grouped:
  "distinct (map fst (prepare_metas_for_conflict_resolution requirements))
   \<and> (\<forall>(pkg, data)\<in>set (prepare_metas_for_conflict_resolution requirements). well_grouped data)"
  using prepare_fold_invariant [of "[]" requirements]
  by (simp add: prepare_metas_for_conflict_resolution_def)


lemma select_bucket_partition:
  assumes "select_bucket platform wh metas = Inr (sel, bws)" and "m \<in> set metas"
  shows "length bws \<le> 1 \<and> ((m = sel) \<noteq> (\<exists>w\<in>set bws. m \<in> set (discarded_of w)))"
proof (cases "1 < length metas")
  case True
  have "length (sort_reverse sort_key_of metas) \<noteq> 0"
    using True by (auto simp: sort_reverse_length)
  then obtain s rest where sr: "sort_reverse sort_key_of metas = s # rest"
    by (cases "sort_reverse sort_key_of metas") auto
  have "select_bucket platform wh metas =
      Inr (s, if filter (\<lambda>m. m \<noteq> s) rest \<noteq> []
              then [PlatformConflict platform s wh (filter (\<lambda>m. m \<noteq> s) rest)] else [])"
    using True sr by (simp add: select_bucket_def Let_def)
  then have sel: "sel = s"
    and bws: "bws = (if filter (\<lambda>m. m \<noteq> s) rest \<noteq> []
                      then [PlatformConflict platform s wh (filter (\<lambda>m. m \<noteq> s) rest)] else [])"
    using assms(1) by simp_all
  have "m \<in> set (sort_reverse sort_key_of metas)" using assms(2) by (simp add: sort_reverse_set)
  then have m: "m = s \<or> m \<in> set rest" using sr by simp
  show ?thesis
  proof (cases "m = s")
    case True
    then show ?thesis using sel bws by auto
  next
    case False
    then have mem: "m \<in> set (filter (\<lambda>m. m \<noteq> s) rest)" using m by simp
    then have "filter (\<lambda>m. m \<noteq> s) rest \<noteq> []" by (metis empty_iff empty_set)
    then have "bws = [PlatformConflict platform s wh (filter (\<lambda>m. m \<noteq> s) rest)]"
      using bws by simp
    then show ?thesis using False sel mem by simp
  qed
next
  case False
  then obtain x where "metas = [x]" using assms(2) by (cases metas) auto
  then show ?thesis using assms by (simp add: select_bucket_single)
qed

section \<open>Declarations in the result\<close>


lemma declaration_in_two_slots:
  "resolve_conflicts
     [(''numpy'',
       [\<lparr>name = ''numpy'', pin = None, which = Pip, platforms = Some [''linux-64'', ''osx-64''],
           pprint = ''numpy''\<rparr>])]
   = ([], Inr [(''numpy'',
                [(Some ''linux-64'',
                  [(Pip, \<lparr>name = ''numpy'', pin = None, which = Pip,
                           platforms = Some [''linux-64'', ''osx-64''], pprint = ''numpy''\<rparr>)]),
                 (Some ''osx-64'',
                  [(Pip, \<lparr>name = ''numpy'', pin = None, which = Pip,
                           platforms = Some [''linux-64'', ''osx-64''], pprint = ''numpy''\<rparr>)])])])"
  by (simp add: resolve_conflicts_def prepare_metas_for_conflict_resolution_def group_metas_def
      group_append_def platforms_or_null_def get_default_def
      select_preferred_version_within_platform_def select_bucket_def reconcile_platforms_def
      resolve_conda_pip_conflicts_def truthy_def)

lemma resolve_conflicts_total: "\<exists>ws out. resolve_conflicts requirements = (ws, Inr out)"
proof -
  have wf: "distinct (map fst (prepare_metas_for_conflict_resolution requirements))"
    "\<forall>(pkg, data)\<in>set (prepare_metas_for_conflict_resolution requirements). well_grouped data"
    using prepare_well_grouped by blast+
  from select_packages_ok [OF wf, of "[]"] obtain ws resolved where
    "select_packages (prepare_metas_for_conflict_resolution requirements) [] = (ws, Inr resolved)"
    by blast
  then show ?thesis by (simp add: resolve_conflicts_def)
qed

section \<open>The selector on grouped data\<close>

lemma selector_slot:
  assumes "well_grouped data" and "(platform, packages) \<in> set data"
    and "(wh, metas) \<in> set packages"
  shows "\<exists>ws red sel bws.
           select_preferred_version_within_platform data = (ws, Inr red)
         \<and> slot red platform wh = Some sel
         \<and> select_bucket platform wh metas = Inr (sel, bws)
         \<and> set bws \<subseteq> set ws"
proof -
  have "metas \<noteq> []" using assms unfolding well_grouped_def by blast
  then obtain sel bws where sb: "select_bucket platform wh metas = Inr (sel, bws)"
    using select_bucket_nonempty by blast
  from select_platforms_ok [OF assms(1), of "[]"] obtain ws red where
    run: "select_platforms data [] = (ws, Inr red)"
    and found: "\<forall>platform packages wh metas sel bws.
                 (platform, packages) \<in> set data \<longrightarrow> (wh, metas) \<in> set packages
                 \<longrightarrow> select_bucket platform wh metas = Inr (sel, bws)
                 \<longrightarrow> slot red platform wh = Some sel \<and> set bws \<subseteq> set ws"
    by blast
  have "slot red platform wh = Some sel \<and> set bws \<subseteq> set ws"
    using found assms(2,3) sb by blast
  then show ?thesis
    using run sb by (simp add: select_preferred_version_within_platform_def)
qed

lemma two_elements_length:
  assumes "a \<in> set xs" and "b \<in> set xs" and "a \<noteq> b"
  shows "1 < length xs"
proof (cases xs)
  case Nil
  then show ?thesis using assms by simp
next
  case (Cons x ys)
  then have "ys \<noteq> []" using assms by auto
  then show ?thesis using Cons by (cases ys) auto
qed





text \<open>
  Claim C4.  On data as the grouper builds it, the selector returns, and for every bucket
  of more than one Declaration its result holds, at the bucket's platform and ecosystem,
  the first element of the bucket sorted in descending order by the key
  \<open>(pin is not None, pin)\<close>: an element of the bucket whose key is greatest.  It has a
  pin if any Declaration of the bucket has one, and its pin is lexicographically at least
  every other pin of the bucket.  The warning of the bucket, if any, is among the
  warnings of the run.
\<close>

theorem selector_takes_maximum:
  assumes "well_grouped data"
    and "(platform, packages) \<in> set data"
    and "(wh, metas) \<in> set packages"
    and "1 < length metas"
  shows "\<exists>ws red sel bws.
           select_preferred_version_within_platform data = (ws, Inr red)
         \<and> slot red platform wh = Some sel
         \<and> select_bucket platform wh metas = Inr (sel, bws)
         \<and> set bws \<subseteq> set ws
         \<and> sel = hd (sort_reverse sort_key_of metas)
         \<and> sel \<in> set metas
         \<and> (\<forall>m\<in>set metas. sort_key_of m \<le> sort_key_of sel)
         \<and> ((\<exists>m\<in>set metas. pin m \<noteq> None) \<longrightarrow> pin sel \<noteq> None)
         \<and> (\<forall>m\<in>set metas. \<forall>s. pin m = Some s \<longrightarrow> (\<exists>t. pin sel = Some t \<and> s \<le> t))"
proof -
  from selector_slot [OF assms(1,2,3)] obtain ws red sel bws where
    sp: "select_preferred_version_within_platform data = (ws, Inr red)"
    and sl: "slot red platform wh = Some sel"
    and sb: "select_bucket platform wh metas = Inr (sel, bws)"
    and sub: "set bws \<subseteq> set ws"
    by blast
  from select_bucket_takes_maximum [OF assms(4), of platform wh] obtain sel' ws' where
    sb': "select_bucket platform wh metas = Inr (sel', ws')"
    and mx: "sel' = hd (sort_reverse sort_key_of metas)" "sel' \<in> set metas"
      "\<forall>m\<in>set metas. sort_key_of m \<le> sort_key_of sel'"
      "(\<exists>m\<in>set metas. pin m \<noteq> None) \<longrightarrow> pin sel' \<noteq> None"
      "\<forall>m\<in>set metas. \<forall>s. pin m = Some s \<longrightarrow> (\<exists>t. pin sel' = Some t \<and> s \<le> t)"
    by blast
  have "sel' = sel" using sb sb' by simp
  then show ?thesis using sp sl sb sub mx by blast
qed

text \<open>
  The theorem on a bucket with the pins null, \<open>>=9\<close> and \<open>>=10\<close>: the strings are
  compared, not the numbers, and \<open>>=9\<close> is selected.
\<close>

theorem selector_takes_maximum_witness:
  "well_grouped
     [(None,
    [(Conda,
     [\<lparr>name = ''numpy'', pin = None, which = Conda, platforms = None, pprint = ''numpy''\<rparr>,
      \<lparr>name = ''numpy'', pin = Some ''>=9'', which = Conda, platforms = None, pprint = ''numpy >=9''\<rparr>,
      \<lparr>name = ''numpy'', pin = Some ''>=10'', which = Conda, platforms = None, pprint = ''numpy >=10''\<rparr>])])]
   \<and> (None,
    [(Conda,
     [\<lparr>name = ''numpy'', pin = None, which = Conda, platforms = None, pprint = ''numpy''\<rparr>,
      \<lparr>name = ''numpy'', pin = Some ''>=9'', which = Conda, platforms = None, pprint = ''numpy >=9''\<rparr>,
      \<lparr>name = ''numpy'', pin = Some ''>=10'', which = Conda, platforms = None, pprint = ''numpy >=10''\<rparr>])])
     \<in> set
     [(None,
    [(Conda,
     [\<lparr>name = ''numpy'', pin = None, which = Conda, platforms = None, pprint = ''numpy''\<rparr>,
      \<lparr>name = ''numpy'', pin = Some ''>=9'', which = Conda, platforms = None, pprint = ''numpy >=9''\<rparr>,
      \<lparr>name = ''numpy'', pin = Some ''>=10'', which = Conda, platforms = None, pprint = ''numpy >=10''\<rparr>])])]
   \<and> (Conda,
     [\<lparr>name = ''numpy'', pin = None, which = Conda, platforms = None, pprint = ''numpy''\<rparr>,
      \<lparr>name = ''numpy'', pin = Some ''>=9'', which = Conda, platforms = None, pprint = ''numpy >=9''\<rparr>,
      \<lparr>name = ''numpy'', pin = Some ''>=10'', which = Conda, platforms = None, pprint = ''numpy >=10''\<rparr>])
     \<in> set
     [(Conda,
     [\<lparr>name = ''numpy'', pin = None, which = Conda, platforms = None, pprint = ''numpy''\<rparr>,
      \<lparr>name = ''numpy'', pin = Some ''>=9'', which = Conda, platforms = None, pprint = ''numpy >=9''\<rparr>,
      \<lparr>name = ''numpy'', pin = Some ''>=10'', which = Conda, platforms = None, pprint = ''numpy >=10''\<rparr>])]
   \<and> 1 < length
     [\<lparr>name = ''numpy'', pin = None, which = Conda, platforms = None, pprint = ''numpy''\<rparr>,
      \<lparr>name = ''numpy'', pin = Some ''>=9'', which = Conda, platforms = None, pprint = ''numpy >=9''\<rparr>,
      \<lparr>name = ''numpy'', pin = Some ''>=10'', which = Conda, platforms = None, pprint = ''numpy >=10''\<rparr>]
   \<and> select_preferred_version_within_platform
     [(None,
    [(Conda,
     [\<lparr>name = ''numpy'', pin = None, which = Conda, platforms = None, pprint = ''numpy''\<rparr>,
      \<lparr>name = ''numpy'', pin = Some ''>=9'', which = Conda, platforms = None, pprint = ''numpy >=9''\<rparr>,
      \<lparr>name = ''numpy'', pin = Some ''>=10'', which = Conda, platforms = None, pprint = ''numpy >=10''\<rparr>])])]
     = ([PlatformConflict None
           \<lparr>name = ''numpy'', pin = Some ''>=9'', which = Conda, platforms = None, pprint = ''numpy >=9''\<rparr> Conda
           [\<lparr>name = ''numpy'', pin = Some ''>=10'', which = Conda, platforms = None, pprint = ''numpy >=10''\<rparr>,
            \<lparr>name = ''numpy'', pin = None, which = Conda, platforms = None, pprint = ''numpy''\<rparr>]],
        Inr [(None, [(Conda, \<lparr>name = ''numpy'', pin = Some ''>=9'', which = Conda, platforms = None, pprint = ''numpy >=9''\<rparr>)])])
   \<and> (\<exists>ws red sel bws.
           select_preferred_version_within_platform 
     [(None,
    [(Conda,
     [\<lparr>name = ''numpy'', pin = None, which = Conda, platforms = None, pprint = ''numpy''\<rparr>,
      \<lparr>name = ''numpy'', pin = Some ''>=9'', which = Conda, platforms = None, pprint = ''numpy >=9''\<rparr>,
      \<lparr>name = ''numpy'', pin = Some ''>=10'', which = Conda, platforms = None, pprint = ''numpy >=10''\<rparr>])])] = (ws, Inr red)
         \<and> slot red None Conda = Some sel
         \<and> select_bucket None Conda 
     [\<lparr>name = ''numpy'', pin = None, which = Conda, platforms = None, pprint = ''numpy''\<rparr>,
      \<lparr>name = ''numpy'', pin = Some ''>=9'', which = Conda, platforms = None, pprint = ''numpy >=9''\<rparr>,
      \<lparr>name = ''numpy'', pin = Some ''>=10'', which = Conda, platforms = None, pprint = ''numpy >=10''\<rparr>] = Inr (sel, bws)
         \<and> set bws \<subseteq> set ws
         \<and> sel = hd (sort_reverse sort_key_of 
     [\<lparr>name = ''numpy'', pin = None, which = Conda, platforms = None, pprint = ''numpy''\<rparr>,
      \<lparr>name = ''numpy'', pin = Some ''>=9'', which = Conda, platforms = None, pprint = ''numpy >=9''\<rparr>,
      \<lparr>name = ''numpy'', pin = Some ''>=10'', which = Conda, platforms = None, pprint = ''numpy >=10''\<rparr>])
         \<and> sel \<in> set 
     [\<lparr>name = ''numpy'', pin = None, which = Conda, platforms = None, pprint = ''numpy''\<rparr>,
      \<lparr>name = ''numpy'', pin = Some ''>=9'', which = Conda, platforms = None, pprint = ''numpy >=9''\<rparr>,
      \<lparr>name = ''numpy'', pin = Some ''>=10'', which = Conda, platforms = None, pprint = ''numpy >=10''\<rparr>]
         \<and> (\<forall>m\<in>set 
     [\<lparr>name = ''numpy'', pin = None, which = Conda, platforms = None, pprint = ''numpy''\<rparr>,
      \<lparr>name = ''numpy'', pin = Some ''>=9'', which = Conda, platforms = None, pprint = ''numpy >=9''\<rparr>,
      \<lparr>name = ''numpy'', pin = Some ''>=10'', which = Conda, platforms = None, pprint = ''numpy >=10''\<rparr>]. sort_key_of m \<le> sort_key_of sel)
         \<and> ((\<exists>m\<in>set 
     [\<lparr>name = ''numpy'', pin = None, which = Conda, platforms = None, pprint = ''numpy''\<rparr>,
      \<lparr>name = ''numpy'', pin = Some ''>=9'', which = Conda, platforms = None, pprint = ''numpy >=9''\<rparr>,
      \<lparr>name = ''numpy'', pin = Some ''>=10'', which = Conda, platforms = None, pprint = ''numpy >=10''\<rparr>]. pin m \<noteq> None) \<longrightarrow> pin sel \<noteq> None)
         \<and> (\<forall>m\<in>set 
     [\<lparr>name = ''numpy'', pin = None, which = Conda, platforms = None, pprint = ''numpy''\<rparr>,
      \<lparr>name = ''numpy'', pin = Some ''>=9'', which = Conda, platforms = None, pprint = ''numpy >=9''\<rparr>,
      \<lparr>name = ''numpy'', pin = Some ''>=10'', which = Conda, platforms = None, pprint = ''numpy >=10''\<rparr>]. \<forall>s. pin m = Some s \<longrightarrow> (\<exists>t. pin sel = Some t \<and> s \<le> t)))"
proof -
  let ?a = "\<lparr>name = ''numpy'', pin = None, which = Conda, platforms = None, pprint = ''numpy''\<rparr>"
  let ?b = "\<lparr>name = ''numpy'', pin = Some ''>=9'', which = Conda, platforms = None, pprint = ''numpy >=9''\<rparr>"
  let ?d = "\<lparr>name = ''numpy'', pin = Some ''>=10'', which = Conda, platforms = None, pprint = ''numpy >=10''\<rparr>"
  have h1: "well_grouped [(None, [(Conda, [?a, ?b, ?d])])]" by (simp add: well_grouped_def)
  have h2: "(None, [(Conda, [?a, ?b, ?d])]) \<in> set [(None, [(Conda, [?a, ?b, ?d])])]" by simp
  have h3: "(Conda, [?a, ?b, ?d]) \<in> set [(Conda, [?a, ?b, ?d])]" by simp
  have h4: "1 < length [?a, ?b, ?d]" by simp
  have e: "select_preferred_version_within_platform [(None, [(Conda, [?a, ?b, ?d])])]
      = ([PlatformConflict None ?b Conda [?d, ?a]], Inr [(None, [(Conda, ?b)])])"
    by (simp add: select_preferred_version_within_platform_def select_bucket_def
        sort_reverse_def sort_key_of_def)
  note c = selector_takes_maximum [OF h1 h2 h3 h4]
  show ?thesis
    apply (intro conjI)
         apply (rule h1)
        apply (rule h2)
       apply (rule h3)
      apply (rule h4)
     apply (rule e)
    apply (rule c)
    done
qed

section \<open>The empty pin\<close>

lemma empty_pin_reconciler:
  "(pin a = Some '''' \<and> pin b = None
      \<longrightarrow> sort_key_of b < sort_key_of a
          \<and> select_bucket platform wh [a, b] = Inr (a, [PlatformConflict platform a wh [b]])
          \<and> select_bucket platform wh [b, a] = Inr (a, [PlatformConflict platform a wh [b]]))
   \<and> (map_of srcs Conda = Some c \<and> map_of srcs Pip = Some p
        \<and> pin c = Some '''' \<and> pin p = Some s \<and> s \<noteq> ''''
      \<longrightarrow> resolve_conda_pip_conflicts srcs = ([(Pip, p)], []))
   \<and> (map_of srcs Conda = Some c \<and> map_of srcs Pip = Some p
        \<and> pin p = Some '''' \<and> pin c = Some s \<and> s \<noteq> ''''
      \<longrightarrow> resolve_conda_pip_conflicts srcs = ([(Conda, c)], []))
   \<and> (map_of srcs Conda = Some c \<and> map_of srcs Pip = Some p
        \<and> pin c = Some '''' \<and> pin p = None
      \<longrightarrow> resolve_conda_pip_conflicts srcs
            = ([(Conda, c), (Pip, p)], [PinningConflict (Some '''') None]))
   \<and> (map_of srcs Conda = Some c \<and> map_of srcs Pip = Some p
        \<and> pin c = None \<and> pin p = Some ''''
      \<longrightarrow> resolve_conda_pip_conflicts srcs
            = ([(Conda, c), (Pip, p)], [PinningConflict None (Some '''')]))"
proof -
  have sel: "pin a = Some '''' \<and> pin b = None
      \<longrightarrow> sort_key_of b < sort_key_of a
          \<and> select_bucket platform wh [a, b] = Inr (a, [PlatformConflict platform a wh [b]])
          \<and> select_bucket platform wh [b, a] = Inr (a, [PlatformConflict platform a wh [b]])"
  proof
    assume "pin a = Some '''' \<and> pin b = None"
    then have "sort_key_of b < sort_key_of a" by (simp add: sort_key_of_def)
    then show "sort_key_of b < sort_key_of a
          \<and> select_bucket platform wh [a, b] = Inr (a, [PlatformConflict platform a wh [b]])
          \<and> select_bucket platform wh [b, a] = Inr (a, [PlatformConflict platform a wh [b]])"
      using select_bucket_pair by blast
  qed
  have rec: "map_of srcs Conda = Some c \<and> map_of srcs Pip = Some p \<longrightarrow>
     resolve_conda_pip_conflicts srcs =
     (if truthy (pin c) \<and> \<not> truthy (pin p) then ([(Conda, c)], [])
      else if truthy (pin p) \<and> \<not> truthy (pin c) then ([(Pip, p)], [])
      else if pin c = pin p then ([(Conda, c), (Pip, p)], [])
      else ([(Conda, c), (Pip, p)], [PinningConflict (pin c) (pin p)]))"
    using resolve_both by blast
  show ?thesis using sel rec by (auto simp: truthy_def)
qed

lemma empty_pin_selector:
  assumes "well_grouped data" and "(platform, packages) \<in> set data"
    and "(wh, metas) \<in> set packages"
    and "a \<in> set metas" and "pin a = Some ''''" and "b \<in> set metas" and "pin b = None"
  shows "\<exists>ws red sel.
             select_preferred_version_within_platform data = (ws, Inr red)
           \<and> slot red platform wh = Some sel
           \<and> pin sel \<noteq> None \<and> sel \<noteq> b
           \<and> (\<exists>w\<in>set ws. b \<in> set (discarded_of w))
           \<and> ((\<forall>m\<in>set metas. pin m = None \<or> pin m = Some '''') \<longrightarrow> pin sel = Some '''')"
proof -
  have "a \<noteq> b" using assms(5,7) by auto
  then have len: "1 < length metas" using assms(4,6) by (rule two_elements_length [rotated 2])
  from selector_slot [OF assms(1,2,3)] obtain ws red sel bws where
    sp: "select_preferred_version_within_platform data = (ws, Inr red)"
    and sl: "slot red platform wh = Some sel"
    and sb: "select_bucket platform wh metas = Inr (sel, bws)"
    and sub: "set bws \<subseteq> set ws"
    by blast
  from select_bucket_takes_maximum [OF len, of platform wh] obtain sel' ws' where
    sb': "select_bucket platform wh metas = Inr (sel', ws')"
    and mx: "sel' \<in> set metas" "(\<exists>m\<in>set metas. pin m \<noteq> None) \<longrightarrow> pin sel' \<noteq> None"
    by blast
  have eq: "sel' = sel" using sb sb' by simp
  have pinned: "pin sel \<noteq> None" using mx(2) eq assms(4,5) by auto
  then have nb: "sel \<noteq> b" using assms(7) by auto
  have "(b = sel) \<noteq> (\<exists>w\<in>set bws. b \<in> set (discarded_of w))"
    using select_bucket_partition [OF sb assms(6)] by blast
  then have "\<exists>w\<in>set bws. b \<in> set (discarded_of w)" using nb by auto
  then have disc: "\<exists>w\<in>set ws. b \<in> set (discarded_of w)" using sub by blast
  have "(\<forall>m\<in>set metas. pin m = None \<or> pin m = Some '''') \<longrightarrow> pin sel = Some ''''"
    using mx(1) eq pinned by auto
  then show ?thesis using sp sl pinned nb disc by blast
qed

text \<open>
  Claim C10.  A Declaration whose pin is the empty string counts as pinned for the
  selector: its key is above the key of a Declaration with a null pin, and of the two it
  is the one selected, in either order; on data as the grouper builds it, the slot of a
  bucket that holds both an empty and a null pin never goes to the Declaration with the
  null pin, which is named as discarded in a warning of the run, and where the bucket
  holds no other pins the selected pin is the empty string.  For the reconciler the empty
  pin counts as not pinned: beside a pin that is neither null nor empty only the
  Declaration with that pin is kept, and beside a null pin the two pins differ, so both
  are kept with a warning.
\<close>

theorem empty_pin_selector_and_reconciler:
  "(pin a = Some '''' \<and> pin b = None
      \<longrightarrow> sort_key_of b < sort_key_of a
          \<and> select_bucket platform wh [a, b] = Inr (a, [PlatformConflict platform a wh [b]])
          \<and> select_bucket platform wh [b, a] = Inr (a, [PlatformConflict platform a wh [b]]))
   \<and> (map_of srcs Conda = Some c \<and> map_of srcs Pip = Some p
        \<and> pin c = Some '''' \<and> pin p = Some s \<and> s \<noteq> ''''
      \<longrightarrow> resolve_conda_pip_conflicts srcs = ([(Pip, p)], []))
   \<and> (map_of srcs Conda = Some c \<and> map_of srcs Pip = Some p
        \<and> pin p = Some '''' \<and> pin c = Some s \<and> s \<noteq> ''''
      \<longrightarrow> resolve_conda_pip_conflicts srcs = ([(Conda, c)], []))
   \<and> (map_of srcs Conda = Some c \<and> map_of srcs Pip = Some p
        \<and> pin c = Some '''' \<and> pin p = None
      \<longrightarrow> resolve_conda_pip_conflicts srcs
            = ([(Conda, c), (Pip, p)], [PinningConflict (Some '''') None]))
   \<and> (map_of srcs Conda = Some c \<and> map_of srcs Pip = Some p
        \<and> pin c = None \<and> pin p = Some ''''
      \<longrightarrow> resolve_conda_pip_conflicts srcs
            = ([(Conda, c), (Pip, p)], [PinningConflict None (Some '''')]))
   \<and> (well_grouped data \<and> (platform', packages) \<in> set data \<and> (wh', metas) \<in> set packages
      \<and> a \<in> set metas \<and> pin a = Some '''' \<and> b \<in> set metas \<and> pin b = None
      \<longrightarrow> (\<exists>ws red sel.
             select_preferred_version_within_platform data = (ws, Inr red)
           \<and> slot red platform' wh' = Some sel
           \<and> pin sel \<noteq> None \<and> sel \<noteq> b
           \<and> (\<exists>w\<in>set ws. b \<in> set (discarded_of w))
           \<and> ((\<forall>m\<in>set metas. pin m = None \<or> pin m = Some '''') \<longrightarrow> pin sel = Some '''')))"
  using empty_pin_reconciler [of a b platform wh srcs c p s]
    empty_pin_selector [of data platform' packages wh' metas a b]
  by blast

text \<open>
  The theorem on data with one bucket holding a null and an empty pin, and on slots with
  an empty pin for one ecosystem beside \<open>>=1\<close> or a null pin for the other.
\<close>

theorem empty_pin_selector_and_reconciler_witness:
  "well_grouped
     [(Some ''linux-64'', [(Pip, [\<lparr>name = ''numpy'', pin = None, which = Pip, platforms = Some [''linux-64''], pprint = ''numpy''\<rparr>,
      \<lparr>name = ''numpy'', pin = Some '''', which = Pip, platforms = Some [''linux-64''], pprint = ''numpy ''\<rparr>])])]
   \<and> select_preferred_version_within_platform
     [(Some ''linux-64'', [(Pip, [\<lparr>name = ''numpy'', pin = None, which = Pip, platforms = Some [''linux-64''], pprint = ''numpy''\<rparr>,
      \<lparr>name = ''numpy'', pin = Some '''', which = Pip, platforms = Some [''linux-64''], pprint = ''numpy ''\<rparr>])])]
     = ([PlatformConflict (Some ''linux-64'')
           \<lparr>name = ''numpy'', pin = Some '''', which = Pip, platforms = Some [''linux-64''], pprint = ''numpy ''\<rparr> Pip
           [\<lparr>name = ''numpy'', pin = None, which = Pip, platforms = Some [''linux-64''], pprint = ''numpy''\<rparr>]],
        Inr [(Some ''linux-64'', [(Pip, \<lparr>name = ''numpy'', pin = Some '''', which = Pip, platforms = Some [''linux-64''], pprint = ''numpy ''\<rparr>)])])
   \<and> (\<exists>ws red sel.
         select_preferred_version_within_platform
     [(Some ''linux-64'', [(Pip, [\<lparr>name = ''numpy'', pin = None, which = Pip, platforms = Some [''linux-64''], pprint = ''numpy''\<rparr>,
      \<lparr>name = ''numpy'', pin = Some '''', which = Pip, platforms = Some [''linux-64''], pprint = ''numpy ''\<rparr>])])] = (ws, Inr red)
       \<and> slot red (Some ''linux-64'') Pip = Some sel
       \<and> pin sel \<noteq> None
       \<and> sel \<noteq> \<lparr>name = ''numpy'', pin = None, which = Pip, platforms = Some [''linux-64''], pprint = ''numpy''\<rparr>
       \<and> (\<exists>w\<in>set ws. \<lparr>name = ''numpy'', pin = None, which = Pip, platforms = Some [''linux-64''], pprint = ''numpy''\<rparr> \<in> set (discarded_of w))
       \<and> ((\<forall>m\<in>set [\<lparr>name = ''numpy'', pin = None, which = Pip, platforms = Some [''linux-64''], pprint = ''numpy''\<rparr>,
      \<lparr>name = ''numpy'', pin = Some '''', which = Pip, platforms = Some [''linux-64''], pprint = ''numpy ''\<rparr>]. pin m = None \<or> pin m = Some '''') \<longrightarrow> pin sel = Some ''''))
   \<and> sort_key_of \<lparr>name = ''numpy'', pin = None, which = Pip, platforms = Some [''linux-64''], pprint = ''numpy''\<rparr>
       < sort_key_of \<lparr>name = ''numpy'', pin = Some '''', which = Pip, platforms = Some [''linux-64''], pprint = ''numpy ''\<rparr>
   \<and> select_bucket (Some ''linux-64'') Pip
        [\<lparr>name = ''numpy'', pin = None, which = Pip, platforms = Some [''linux-64''], pprint = ''numpy''\<rparr>,
         \<lparr>name = ''numpy'', pin = Some '''', which = Pip, platforms = Some [''linux-64''], pprint = ''numpy ''\<rparr>]
     = Inr (\<lparr>name = ''numpy'', pin = Some '''', which = Pip, platforms = Some [''linux-64''], pprint = ''numpy ''\<rparr>,
            [PlatformConflict (Some ''linux-64'')
               \<lparr>name = ''numpy'', pin = Some '''', which = Pip, platforms = Some [''linux-64''], pprint = ''numpy ''\<rparr> Pip
               [\<lparr>name = ''numpy'', pin = None, which = Pip, platforms = Some [''linux-64''], pprint = ''numpy''\<rparr>]])
   \<and> resolve_conda_pip_conflicts
        [(Conda, \<lparr>name = ''numpy'', pin = Some ''>=1'', which = Conda, platforms = None, pprint = ''numpy >=1''\<rparr>),
         (Pip, \<lparr>name = ''numpy'', pin = Some '''', which = Pip, platforms = None, pprint = ''numpy ''\<rparr>)]
     = ([(Conda, \<lparr>name = ''numpy'', pin = Some ''>=1'', which = Conda, platforms = None, pprint = ''numpy >=1''\<rparr>)], [])
   \<and> resolve_conda_pip_conflicts
        [(Conda, \<lparr>name = ''numpy'', pin = Some '''', which = Conda, platforms = None, pprint = ''numpy ''\<rparr>),
         (Pip, \<lparr>name = ''numpy'', pin = Some ''>=1'', which = Pip, platforms = None, pprint = ''numpy >=1''\<rparr>)]
     = ([(Pip, \<lparr>name = ''numpy'', pin = Some ''>=1'', which = Pip, platforms = None, pprint = ''numpy >=1''\<rparr>)], [])
   \<and> resolve_conda_pip_conflicts
        [(Conda, \<lparr>name = ''numpy'', pin = Some '''', which = Conda, platforms = None, pprint = ''numpy ''\<rparr>),
         (Pip, \<lparr>name = ''numpy'', pin = None, which = Pip, platforms = None, pprint = ''numpy''\<rparr>)]
     = ([(Conda, \<lparr>name = ''numpy'', pin = Some '''', which = Conda, platforms = None, pprint = ''numpy ''\<rparr>),
         (Pip, \<lparr>name = ''numpy'', pin = None, which = Pip, platforms = None, pprint = ''numpy''\<rparr>)],
        [PinningConflict (Some '''') None])
   \<and> resolve_conda_pip_conflicts
        [(Conda, \<lparr>name = ''numpy'', pin = None, which = Conda, platforms = None, pprint = ''numpy''\<rparr>),
         (Pip, \<lparr>name = ''numpy'', pin = Some '''', which = Pip, platforms = None, pprint = ''numpy ''\<rparr>)]
     = ([(Conda, \<lparr>name = ''numpy'', pin = None, which = Conda, platforms = None, pprint = ''numpy''\<rparr>),
         (Pip, \<lparr>name = ''numpy'', pin = Some '''', which = Pip, platforms = None, pprint = ''numpy ''\<rparr>)],
        [PinningConflict None (Some '''')])"
proof -
  let ?ce = "\<lparr>name = ''numpy'', pin = Some '''', which = Conda, platforms = None, pprint = ''numpy ''\<rparr>"
  let ?pq = "\<lparr>name = ''numpy'', pin = Some ''>=1'', which = Pip, platforms = None, pprint = ''numpy >=1''\<rparr>"
  let ?cn = "\<lparr>name = ''numpy'', pin = None, which = Conda, platforms = None, pprint = ''numpy''\<rparr>"
  let ?pn = "\<lparr>name = ''numpy'', pin = None, which = Pip, platforms = None, pprint = ''numpy''\<rparr>"
  let ?pe = "\<lparr>name = ''numpy'', pin = Some '''', which = Pip, platforms = None, pprint = ''numpy ''\<rparr>"
  let ?a = "\<lparr>name = ''numpy'', pin = Some '''', which = Pip, platforms = Some [''linux-64''], pprint = ''numpy ''\<rparr>"
  let ?b = "\<lparr>name = ''numpy'', pin = None, which = Pip, platforms = Some [''linux-64''], pprint = ''numpy''\<rparr>"
  let ?c = "\<lparr>name = ''numpy'', pin = Some ''>=1'', which = Conda, platforms = None, pprint = ''numpy >=1''\<rparr>"
  let ?p = "\<lparr>name = ''numpy'', pin = Some '''', which = Pip, platforms = None, pprint = ''numpy ''\<rparr>"
  let ?data = "[(Some ''linux-64'', [(Pip, [?b, ?a])])]"
  let ?srcs = "[(Conda, ?c), (Pip, ?p)]"
  note t = empty_pin_selector_and_reconciler
             [of ?a ?b "Some ''linux-64''" Pip ?srcs ?c ?p "''>=1''" ?data "Some ''linux-64''"
                 "[(Pip, [?b, ?a])]" Pip "[?b, ?a]"]
  have h0: "pin ?a = Some '''' \<and> pin ?b = None" by simp
  have h1: "well_grouped ?data" by (simp add: well_grouped_def)
  have h2: "well_grouped ?data \<and> (Some ''linux-64'', [(Pip, [?b, ?a])]) \<in> set ?data
      \<and> (Pip, [?b, ?a]) \<in> set [(Pip, [?b, ?a])]
      \<and> ?a \<in> set [?b, ?a] \<and> pin ?a = Some '''' \<and> ?b \<in> set [?b, ?a] \<and> pin ?b = None"
    using h1 by simp
  have h3: "map_of ?srcs Conda = Some ?c \<and> map_of ?srcs Pip = Some ?p
        \<and> pin ?p = Some '''' \<and> pin ?c = Some ''>=1'' \<and> ''>=1'' \<noteq> ''''" by simp
  have e: "select_preferred_version_within_platform ?data
      = ([PlatformConflict (Some ''linux-64'') ?a Pip [?b]], Inr [(Some ''linux-64'', [(Pip, ?a)])])"
    by (simp add: select_preferred_version_within_platform_def select_bucket_def
        sort_reverse_def sort_key_of_def)
  have s: "\<exists>ws red sel.
         select_preferred_version_within_platform ?data = (ws, Inr red)
       \<and> slot red (Some ''linux-64'') Pip = Some sel
       \<and> pin sel \<noteq> None
       \<and> sel \<noteq> ?b
       \<and> (\<exists>w\<in>set ws. ?b \<in> set (discarded_of w))
       \<and> ((\<forall>m\<in>set [?b, ?a]. pin m = None \<or> pin m = Some '''') \<longrightarrow> pin sel = Some '''')"
    using t [THEN conjunct2, THEN conjunct2, THEN conjunct2, THEN conjunct2, THEN conjunct2]
      h2 by (rule mp)
  have k: "sort_key_of ?b < sort_key_of ?a
          \<and> select_bucket (Some ''linux-64'') Pip [?a, ?b]
              = Inr (?a, [PlatformConflict (Some ''linux-64'') ?a Pip [?b]])
          \<and> select_bucket (Some ''linux-64'') Pip [?b, ?a]
              = Inr (?a, [PlatformConflict (Some ''linux-64'') ?a Pip [?b]])"
    using t [THEN conjunct1] h0 by (rule mp)
  have r: "resolve_conda_pip_conflicts ?srcs = ([(Conda, ?c)], [])"
    using t [THEN conjunct2, THEN conjunct2, THEN conjunct1] h3 by (rule mp)
  have r2: "resolve_conda_pip_conflicts [(Conda, ?ce), (Pip, ?pq)] = ([(Pip, ?pq)], [])"
  proof -
    have "map_of [(Conda, ?ce), (Pip, ?pq)] Conda = Some ?ce
        \<and> map_of [(Conda, ?ce), (Pip, ?pq)] Pip = Some ?pq
        \<and> pin ?ce = Some '''' \<and> pin ?pq = Some ''>=1'' \<and> ''>=1'' \<noteq> ''''" by simp
    with empty_pin_selector_and_reconciler
           [of _ _ _ _ "[(Conda, ?ce), (Pip, ?pq)]" ?ce ?pq "''>=1''",
            THEN conjunct2, THEN conjunct1]
    show ?thesis by (rule mp)
  qed
  have r4: "resolve_conda_pip_conflicts [(Conda, ?ce), (Pip, ?pn)]
      = ([(Conda, ?ce), (Pip, ?pn)], [PinningConflict (Some '''') None])"
  proof -
    have "map_of [(Conda, ?ce), (Pip, ?pn)] Conda = Some ?ce
        \<and> map_of [(Conda, ?ce), (Pip, ?pn)] Pip = Some ?pn
        \<and> pin ?ce = Some '''' \<and> pin ?pn = None" by simp
    with empty_pin_selector_and_reconciler
           [of _ _ _ _ "[(Conda, ?ce), (Pip, ?pn)]" ?ce ?pn,
            THEN conjunct2, THEN conjunct2, THEN conjunct2, THEN conjunct1]
    show ?thesis by (rule mp)
  qed
  have r5: "resolve_conda_pip_conflicts [(Conda, ?cn), (Pip, ?pe)]
      = ([(Conda, ?cn), (Pip, ?pe)], [PinningConflict None (Some '''')])"
  proof -
    have "map_of [(Conda, ?cn), (Pip, ?pe)] Conda = Some ?cn
        \<and> map_of [(Conda, ?cn), (Pip, ?pe)] Pip = Some ?pe
        \<and> pin ?cn = None \<and> pin ?pe = Some ''''" by simp
    with empty_pin_selector_and_reconciler
           [of _ _ _ _ "[(Conda, ?cn), (Pip, ?pe)]" ?cn ?pe,
            THEN conjunct2, THEN conjunct2, THEN conjunct2, THEN conjunct2, THEN conjunct1]
    show ?thesis by (rule mp)
  qed
  show ?thesis
    apply (intro conjI)
            apply (rule h1)
           apply (rule e)
          apply (rule s)
         apply (rule k [THEN conjunct1])
        apply (rule k [THEN conjunct2, THEN conjunct2])
       apply (rule r)
      apply (rule r2)
     apply (rule r4)
    apply (rule r5)
    done
qed

section \<open>Every Declaration of the input\<close>



end
